theory Spec2Isabelle
  imports Complex_Main "HOL-Library.Word" "HOL-Library.Sublist" "HOL-Library.Multiset"
begin

section \<open>The snapshot model of records/state/state.go\<close>

text \<open>
  Go strings are byte sequences and are modelled as \<open>string\<close> (a list of 8-bit
  characters). A slice is a list; Go's nil slice and its empty slice both have length 0
  and are both the empty list here. A \<open>float64\<close> timestamp is read as the real number
  it denotes: the timestamps decoded from a JSON document are finite, and on finite
  floats Go's \<open>>\<close> is the order of the reals. Go's \<open>int\<close> is the 64-bit signed
  integer; it is modelled as \<open>int\<close>, with the range check and the wrap-around written
  out where the code can reach them.

  The types DiscoveryInfo, DiscoveryPort, Framework, Slave, PID and State of state.go
  take no part in the operations verified below and are left out; Task is modelled
  without its DiscoveryInfo field.
\<close>

datatype error =
    IndexOutOfRange
  | Errorf string
  | NumError string string
  | NetError string

record Resources =
  PortRanges :: string

record Label =
  Key :: string
  Value :: string

record IPAddress =
  IPAddress :: string

record PortMapping =
  Protocol :: string
  HostPort :: int
  ContainerPort :: int

record NetworkInfo =
  IPAddresses :: "IPAddress list"
  PortMappings :: "PortMapping list"
  IPAddress :: string

record ContainerStatus =
  NetworkInfos :: "NetworkInfo list"

record Status =
  Timestamp :: real
  State :: string
  Labels :: "Label list"
  ContainerStatus :: ContainerStatus

record Task =
  FrameworkID :: string
  ID :: string
  Name :: string
  SlaveID :: string
  State :: string
  Statuses :: "Status list"
  Resources :: Resources
  SlaveIPs :: "string list"

section \<open>Status selection and the address sources\<close>

text \<open>
  The loop of \<open>statusIPs\<close>: \<open>i\<close> is the index of the head of the remaining
  statuses, \<open>(ts, j)\<close> the loop's two variables.
\<close>

fun statusIPs_loop :: "Status list \<Rightarrow> nat \<Rightarrow> real \<times> int \<Rightarrow> real \<times> int" where
  "statusIPs_loop [] i (ts, j) = (ts, j)"
| "statusIPs_loop (s # st) i (ts, j) =
     (if Status.State s = ''TASK_RUNNING'' \<and> Timestamp s > ts
      then statusIPs_loop st (Suc i) (Timestamp s, int i)
      else statusIPs_loop st (Suc i) (ts, j))"

definition statusIPs :: "Status list \<Rightarrow> (Status \<Rightarrow> string list) \<Rightarrow> string list" where
  "statusIPs st src =
     (case statusIPs_loop st 0 (- 1, - 1) of
        (ts, j) \<Rightarrow> if j \<ge> 0 then src (st ! nat j) else [])"

text \<open>
  The selection step of \<open>statusIPs\<close> on its own: the index \<open>j\<close> the scan ends
  with, \<open>None\<close> when it is still \<open>-1\<close>.
\<close>

definition selected :: "Status list \<Rightarrow> nat option" where
  "selected st =
     (case statusIPs_loop st 0 (- 1, - 1) of
        (ts, j) \<Rightarrow> if j \<ge> 0 then Some (nat j) else None)"

fun labels_loop :: "string \<Rightarrow> Label list \<Rightarrow> string list \<Rightarrow> string list" where
  "labels_loop key [] vs = vs"
| "labels_loop key (l # ls) vs =
     (if Key l = key then labels_loop key ls (vs @ [Value l]) else labels_loop key ls vs)"

definition labels :: "string \<Rightarrow> Status \<Rightarrow> string list" where
  "labels key s = labels_loop key (Labels s) []"

definition DockerIPLabel :: string where
  "DockerIPLabel = ''Docker.NetworkSettings.IPAddress''"

definition MesosIPLabel :: string where
  "MesosIPLabel = ''MesosContainerizer.NetworkSettings.IPAddress''"

definition hostIPs :: "Task \<Rightarrow> string list" where
  "hostIPs t = SlaveIPs t"

definition dockerIPs :: "Task \<Rightarrow> string list" where
  "dockerIPs t = statusIPs (Statuses t) (labels DockerIPLabel)"

definition mesosIPs :: "Task \<Rightarrow> string list" where
  "mesosIPs t = statusIPs (Statuses t) (labels MesosIPLabel)"

fun ipAddresses_loop :: "IPAddress list \<Rightarrow> string list \<Rightarrow> string list" where
  "ipAddresses_loop [] ips = ips"
| "ipAddresses_loop (a # as) ips = ipAddresses_loop as (ips @ [IPAddress.IPAddress a])"

fun netinfo_loop :: "NetworkInfo list \<Rightarrow> string list \<Rightarrow> string list" where
  "netinfo_loop [] ips = ips"
| "netinfo_loop (n # ns) ips =
     (if length (IPAddresses n) > 0
      then netinfo_loop ns (ipAddresses_loop (IPAddresses n) ips)
      else if NetworkInfo.IPAddress n \<noteq> ''''
      then netinfo_loop ns (ips @ [NetworkInfo.IPAddress n])
      else netinfo_loop ns ips)"

text \<open>
  The function literal of \<open>networkInfoIPs\<close>. \<open>make([]string, n)\<close> is a slice of
  length \<open>n\<close> holding \<open>n\<close> empty strings; the loop appends to it.
\<close>

definition networkInfo_src :: "Status \<Rightarrow> string list" where
  "networkInfo_src s =
     netinfo_loop (NetworkInfos (ContainerStatus s))
       (replicate (length (NetworkInfos (ContainerStatus s))) '''')"

definition networkInfoIPs :: "Task \<Rightarrow> string list" where
  "networkInfoIPs t = statusIPs (Statuses t) networkInfo_src"

definition sources :: "string \<Rightarrow> (Task \<Rightarrow> string list) option" where
  "sources name =
     (if name = ''host'' then Some hostIPs
      else if name = ''mesos'' then Some mesosIPs
      else if name = ''docker'' then Some dockerIPs
      else if name = ''netinfo'' then Some networkInfoIPs
      else None)"

section \<open>The resolution engine\<close>

text \<open>
  \<open>net.IP\<close> is a byte slice. \<open>net.ParseIP\<close> and the \<open>String\<close> method of
  \<open>net.IP\<close> belong to Go's standard library, not to this repository: \<open>IPs\<close> and
  \<open>IP\<close> take them as the parameters \<open>ParseIP\<close> and \<open>String\<close>. The receiver
  is a pointer, \<open>None\<close> being nil.
\<close>

type_synonym IP = "8 word list"

fun IPs_inner :: "(string \<Rightarrow> IP) \<Rightarrow> string list \<Rightarrow> IP list \<Rightarrow> IP list" where
  "IPs_inner ParseIP [] ips = ips"
| "IPs_inner ParseIP (srcIP # rest) ips =
     (let ip = ParseIP srcIP
      in if length ip > 0 then IPs_inner ParseIP rest (ips @ [ip])
         else IPs_inner ParseIP rest ips)"

fun IPs_loop :: "(string \<Rightarrow> IP) \<Rightarrow> Task \<Rightarrow> string list \<Rightarrow> IP list \<Rightarrow> IP list" where
  "IPs_loop ParseIP t [] ips = ips"
| "IPs_loop ParseIP t (name # srcs) ips =
     (case sources name of
        Some src \<Rightarrow> IPs_loop ParseIP t srcs (IPs_inner ParseIP (src t) ips)
      | None \<Rightarrow> IPs_loop ParseIP t srcs ips)"

definition IPs :: "(string \<Rightarrow> IP) \<Rightarrow> Task option \<Rightarrow> string list \<Rightarrow> IP list" where
  "IPs ParseIP t srcs =
     (case t of None \<Rightarrow> [] | Some t' \<Rightarrow> IPs_loop ParseIP t' srcs [])"

definition IP :: "(string \<Rightarrow> IP) \<Rightarrow> (IP \<Rightarrow> string) \<Rightarrow> Task option \<Rightarrow> string list \<Rightarrow> string" where
  "IP ParseIP String t srcs =
     (let ips = IPs ParseIP t srcs
      in if length ips > 0 then String (ips ! 0) else '''')"

section \<open>Port mapping lookup\<close>

text \<open>
  \<open>t.Statuses[0]\<close> panics with an index out of range when the slice is empty; the
  panic is the result \<open>Inl IndexOutOfRange\<close>.
\<close>

fun MapPort_inner :: "PortMapping list \<Rightarrow> int \<Rightarrow> int option" where
  "MapPort_inner [] hostport = None"
| "MapPort_inner (pm # pms) hostport =
     (if HostPort pm = hostport then Some (ContainerPort pm) else MapPort_inner pms hostport)"

fun MapPort_loop :: "NetworkInfo list \<Rightarrow> int \<Rightarrow> int" where
  "MapPort_loop [] hostport = hostport"
| "MapPort_loop (n # ni) hostport =
     (case MapPort_inner (PortMappings n) hostport of
        Some p \<Rightarrow> p
      | None \<Rightarrow> MapPort_loop ni hostport)"

definition MapPort :: "Task \<Rightarrow> int \<Rightarrow> error + int" where
  "MapPort t hostport =
     (if length (Statuses t) \<le> 0 then Inl IndexOutOfRange
      else Inr (MapPort_loop (NetworkInfos (ContainerStatus (Statuses t ! 0))) hostport))"

section \<open>The standard library's string functions\<close>

text \<open>
  \<open>strings.Split\<close>, \<open>strings.TrimSpace\<close>, \<open>strconv.Atoi\<close> and \<open>strconv.Itoa\<close> belong
  to Go's standard library. They are pure functions of their arguments with a documented
  result, which the definitions of this section compute.

  Every call of \<open>strings.Split\<close> in the repository passes a separator of one byte:
  the result is the list of the pieces between the occurrences of that byte, one more
  than there are occurrences.
\<close>

fun Split :: "string \<Rightarrow> char \<Rightarrow> string list" where
  "Split [] sep = [[]]"
| "Split (c # s) sep =
     (if c = sep then [] # Split s sep
      else (case Split s sep of [] \<Rightarrow> [[c]] | piece # pieces \<Rightarrow> (c # piece) # pieces))"

text \<open>
  \<open>strings.TrimSpace\<close> removes the leading and the trailing white space, as Unicode
  defines it (\<open>unicode.IsSpace\<close>), of a UTF-8 string. \<open>spaceRunes\<close> lists the UTF-8
  encodings of the white space code points: U+0009 to U+000D, U+0020, U+0085, U+00A0,
  U+1680, U+2000 to U+200A, U+2028, U+2029, U+202F, U+205F and U+3000.
\<close>

definition spaceRunes :: "string list" where
  "spaceRunes =
     [[CHR 0x09], [CHR 0x0A], [CHR 0x0B], [CHR 0x0C], [CHR 0x0D], [CHR 0x20],
      [CHR 0xC2, CHR 0x85], [CHR 0xC2, CHR 0xA0],
      [CHR 0xE1, CHR 0x9A, CHR 0x80],
      [CHR 0xE2, CHR 0x80, CHR 0x80], [CHR 0xE2, CHR 0x80, CHR 0x81],
      [CHR 0xE2, CHR 0x80, CHR 0x82], [CHR 0xE2, CHR 0x80, CHR 0x83],
      [CHR 0xE2, CHR 0x80, CHR 0x84], [CHR 0xE2, CHR 0x80, CHR 0x85],
      [CHR 0xE2, CHR 0x80, CHR 0x86], [CHR 0xE2, CHR 0x80, CHR 0x87],
      [CHR 0xE2, CHR 0x80, CHR 0x88], [CHR 0xE2, CHR 0x80, CHR 0x89],
      [CHR 0xE2, CHR 0x80, CHR 0x8A],
      [CHR 0xE2, CHR 0x80, CHR 0xA8], [CHR 0xE2, CHR 0x80, CHR 0xA9],
      [CHR 0xE2, CHR 0x80, CHR 0xAF],
      [CHR 0xE2, CHR 0x81, CHR 0x9F],
      [CHR 0xE3, CHR 0x80, CHR 0x80]]"

function trimLeftSpace :: "string \<Rightarrow> string" where
  "trimLeftSpace s =
     (case find (\<lambda>w. prefix w s) spaceRunes of
        None \<Rightarrow> s
      | Some w \<Rightarrow> trimLeftSpace (drop (length w) s))"
  by pat_completeness auto
termination
proof (relation "measure length")
  show "wf (measure length)" by simp
next
  fix s w :: string
  assume "find (\<lambda>w. prefix w s) spaceRunes = Some w"
  then have "w \<in> set spaceRunes" and "prefix w s"
    by (auto simp: find_Some_iff)
  then have "w \<noteq> []" and "length w \<le> length s"
    by (auto simp: spaceRunes_def prefix_length_le)
  then show "(drop (length w) s, s) \<in> measure length"
    by (cases w) auto
qed

function trimRightSpace :: "string \<Rightarrow> string" where
  "trimRightSpace s =
     (case find (\<lambda>w. suffix w s) spaceRunes of
        None \<Rightarrow> s
      | Some w \<Rightarrow> trimRightSpace (take (length s - length w) s))"
  by pat_completeness auto
termination
proof (relation "measure length")
  show "wf (measure length)" by simp
next
  fix s w :: string
  assume "find (\<lambda>w. suffix w s) spaceRunes = Some w"
  then have "w \<in> set spaceRunes" and "suffix w s"
    by (auto simp: find_Some_iff)
  then have "w \<noteq> []" and "length w \<le> length s"
    by (auto simp: spaceRunes_def suffix_length_le)
  then show "(take (length s - length w) s, s) \<in> measure length"
    by (cases w) auto
qed

declare trimLeftSpace.simps [simp del] trimRightSpace.simps [simp del]

definition TrimSpace :: "string \<Rightarrow> string" where
  "TrimSpace s = trimRightSpace (trimLeftSpace s)"

text \<open>
  \<open>strconv.Atoi\<close> reads an optional sign and a non-empty run of decimal digits.
  \<open>Atoi_scan\<close> is the loop over the digits, from left to right, with the value read
  so far: a byte that is no digit is a syntax error, a value that no longer fits 64
  unsigned bits is a range error, whichever comes first. A value outside the 64-bit
  \<open>int\<close> is a range error as well. The error is the \<open>*NumError\<close> with the input and
  the kind of error.
\<close>

definition isDigit :: "char \<Rightarrow> bool" where
  "isDigit c = (48 \<le> (of_char c :: nat) \<and> (of_char c :: nat) \<le> 57)"

fun Atoi_scan :: "string \<Rightarrow> nat \<Rightarrow> string + nat" where
  "Atoi_scan [] n = Inr n"
| "Atoi_scan (c # s) n =
     (if \<not> isDigit c then Inl ''invalid syntax''
      else if 2 ^ 64 \<le> n * 10 + (of_char c - 48) then Inl ''value out of range''
      else Atoi_scan s (n * 10 + (of_char c - 48)))"

definition Atoi :: "string \<Rightarrow> error + int" where
  "Atoi s =
     (let neg = (s \<noteq> [] \<and> hd s = CHR ''-'');
          body = (if s \<noteq> [] \<and> (hd s = CHR ''-'' \<or> hd s = CHR ''+'') then tl s else s)
      in if body = [] then Inl (NumError s ''invalid syntax'')
         else (case Atoi_scan body 0 of
                 Inl kind \<Rightarrow> Inl (NumError s kind)
               | Inr un \<Rightarrow>
                   if (\<not> neg \<and> 2 ^ 63 \<le> un) \<or> (neg \<and> 2 ^ 63 < un)
                   then Inl (NumError s ''value out of range'')
                   else Inr (if neg then - int un else int un)))"

text \<open>\<open>strconv.Itoa\<close> is the decimal numeral of an \<open>int\<close>, with \<open>-\<close> before a negative one.\<close>

fun digits :: "nat \<Rightarrow> string" where
  "digits n =
     (if n < 10 then [char_of (48 + n)]
      else digits (n div 10) @ [char_of (48 + n mod 10)])"

declare digits.simps [simp del]

definition Itoa :: "int \<Rightarrow> string" where
  "Itoa i = (if i < 0 then CHR ''-'' # digits (nat (- i)) else digits (nat i))"

section \<open>The port range expander\<close>

text \<open>
  \<open>t++\<close> on the 64-bit \<open>int\<close> wraps around. The loop \<open>for t := lo; t <= hi; t++\<close>
  leaves only when \<open>t\<close> exceeds \<open>hi\<close>; \<open>Ports_range\<close> is \<open>None\<close> when it never
  does.
\<close>

definition wrap64 :: "int \<Rightarrow> int" where
  "wrap64 x = (x + 2 ^ 63) mod 2 ^ 64 - 2 ^ 63"

partial_function (option) Ports_range :: "int \<Rightarrow> int \<Rightarrow> string list \<Rightarrow> string list option" where
  "Ports_range t hi yports =
     (if t \<le> hi then Ports_range (wrap64 (t + 1)) hi (yports @ [Itoa t]) else Some yports)"

text \<open>
  The loop over \<open>mports\<close>. \<open>pz[0]\<close> exists, since Split returns at least one piece;
  \<open>pz[1]\<close> panics when the entry holds no \<open>-\<close>. The result is \<open>None\<close> when the call
  does not return, \<open>Some (Inl e)\<close> when it panics, \<open>Some (Inr yports)\<close> when it
  returns \<open>yports\<close>.
\<close>

fun Ports_loop :: "string list \<Rightarrow> string list \<Rightarrow> (error + string list) option" where
  "Ports_loop [] yports = Some (Inr yports)"
| "Ports_loop (port # mports) yports =
     (let tmp = TrimSpace port;
          pz = Split tmp CHR ''-''
      in case Atoi (pz ! 0) of
           Inl err \<Rightarrow> Ports_loop mports yports
         | Inr lo \<Rightarrow>
             if length pz \<le> 1 then Some (Inl IndexOutOfRange)
             else (case Atoi (pz ! 1) of
                     Inl err \<Rightarrow> Ports_loop mports yports
                   | Inr hi \<Rightarrow>
                       (case Ports_range lo hi yports of
                          None \<Rightarrow> None
                        | Some yports' \<Rightarrow> Ports_loop mports yports')))"

definition Ports :: "Resources \<Rightarrow> (error + string list) option" where
  "Ports r =
     (if PortRanges r = '''' \<or> PortRanges r = ''[]'' then Some (Inr [])
      else let parts = Split (PortRanges r) CHR ''[''
           in if length parts \<le> 1 then Some (Inl IndexOutOfRange)
              else let rhs = parts ! 1;
                       lhs = Split rhs CHR '']'' ! 0;
                       mports = Split lhs CHR '',''
                   in Ports_loop mports [])"

text \<open>
  The text of a port-range descriptor, for the statements about \<open>Ports\<close>.

  A natural number in decimal is a non-empty run of digits, after a \<open>+\<close> or not;
  it fits an \<open>int\<close> when its value is below \<open>2^63\<close>. White space is a sequence
  of white space code points in UTF-8.
\<close>

definition strip_plus :: "string \<Rightarrow> string" where
  "strip_plus s = (if s \<noteq> [] \<and> hd s = CHR ''+'' then tl s else s)"

definition decimal_text :: "string \<Rightarrow> bool" where
  "decimal_text s = (strip_plus s \<noteq> [] \<and> list_all isDigit (strip_plus s))"

definition decimal_value :: "string \<Rightarrow> nat" where
  "decimal_value s = foldl (\<lambda>n c. 10 * n + (of_char c - 48)) 0 (strip_plus s)"

definition fits_int :: "string \<Rightarrow> bool" where
  "fits_int s = (decimal_text s \<and> decimal_value s < 2 ^ 63)"

definition white_space :: "string list \<Rightarrow> bool" where
  "white_space pad = list_all (\<lambda>w. w \<in> set spaceRunes) pad"

text \<open>
  A sub-range is \<open>lo-hi\<close>, the endpoints natural numbers in decimal, with white space
  before and after it or none. Its ports are the numbers from \<open>lo\<close> up to \<open>hi\<close>, both
  included, as \<open>Itoa\<close> writes them.
\<close>

datatype sub_range = SubRange "string list" string string "string list"

fun sub_range_text :: "sub_range \<Rightarrow> string" where
  "sub_range_text (SubRange before lo hi after) = concat before @ lo @ CHR ''-'' # hi @ concat after"

fun sub_range_ports :: "sub_range \<Rightarrow> string list" where
  "sub_range_ports (SubRange before lo hi after) =
     map Itoa [int (decimal_value lo)..int (decimal_value hi)]"

fun sub_range_ok :: "sub_range \<Rightarrow> bool" where
  "sub_range_ok (SubRange before lo hi after) =
     (white_space before \<and> white_space after \<and> decimal_text lo \<and> decimal_text hi \<and>
      decimal_value hi < 2 ^ 63 - 1)"

fun join_comma :: "string list \<Rightarrow> string" where
  "join_comma [] = []"
| "join_comma [e] = e"
| "join_comma (e # e' # es) = e @ CHR '','' # join_comma (e' # es)"

definition descriptor :: "string list \<Rightarrow> Resources" where
  "descriptor es = \<lparr>PortRanges = CHR ''['' # join_comma es @ '']''\<rparr>"

text \<open>
  The endpoints of an arbitrary entry are the text before its first \<open>-\<close> and, when
  it has a \<open>-\<close>, the text after it up to the next \<open>-\<close> or the end. The entry has a
  non-integer endpoint when one of them is not a natural number in decimal that fits
  an \<open>int\<close> (a text without \<open>-\<close> is no negative number). An entry that is one
  integer, without \<open>-\<close>, has no non-integer endpoint.

  A malformed entry is a text with a non-integer endpoint, holding no comma and no
  bracket, given with the white space before and after it apart: the text itself
  neither begins nor ends with white space.
\<close>

definition low_text :: "string \<Rightarrow> string" where
  "low_text e = takeWhile (\<lambda>c. c \<noteq> CHR ''-'') e"

definition high_text :: "string \<Rightarrow> string option" where
  "high_text e =
     (case dropWhile (\<lambda>c. c \<noteq> CHR ''-'') e of
        [] \<Rightarrow> None
      | c # rest \<Rightarrow> Some (takeWhile (\<lambda>c. c \<noteq> CHR ''-'') rest))"

definition non_integer_endpoint :: "string \<Rightarrow> bool" where
  "non_integer_endpoint e =
     (\<not> fits_int (low_text e) \<or>
      (case high_text e of None \<Rightarrow> False | Some hi \<Rightarrow> \<not> fits_int hi))"

datatype entry = WellFormed sub_range | Malformed "string list" string "string list"

fun entry_text :: "entry \<Rightarrow> string" where
  "entry_text (WellFormed r) = sub_range_text r"
| "entry_text (Malformed before e after) = concat before @ e @ concat after"

fun entry_ports :: "entry \<Rightarrow> string list" where
  "entry_ports (WellFormed r) = sub_range_ports r"
| "entry_ports (Malformed before e after) = []"

fun entry_ok :: "entry \<Rightarrow> bool" where
  "entry_ok (WellFormed r) = sub_range_ok r"
| "entry_ok (Malformed before e after) =
     (white_space before \<and> white_space after \<and>
      CHR '','' \<notin> set e \<and> CHR ''['' \<notin> set e \<and> CHR '']'' \<notin> set e \<and>
      list_all (\<lambda>w. \<not> prefix w e \<and> \<not> suffix w e) spaceRunes \<and>
      non_integer_endpoint e)"

section \<open>The peer identifier parser of records/state/upid/upid.go\<close>

text \<open>
  \<open>net.ResolveTCPAddr\<close> and \<open>net.SplitHostPort\<close> belong to Go's standard library, and
  the first may ask the resolver of the host: \<open>Parse\<close> takes them as parameters.
  \<open>ResolveTCPAddr rhs\<close> is the error of \<open>net.ResolveTCPAddr("tcp", rhs)\<close>, \<open>None\<close>
  being nil; \<open>SplitHostPort rhs\<close> is the host, the port and the error. The result of
  \<open>Parse\<close> is its pair of results, the pointer and the error.
\<close>

record UPID =
  ID :: string
  Host :: string
  Port :: string

definition Parse ::
  "(string \<Rightarrow> error option) \<Rightarrow> (string \<Rightarrow> string \<times> string \<times> error option) \<Rightarrow> string
     \<Rightarrow> UPID option \<times> error option" where
  "Parse ResolveTCPAddr SplitHostPort input =
     (let splits = Split input CHR ''@''
      in if length splits \<noteq> 2
         then (None, Some (Errorf (''Expect one `@'' @ [CHR 0x27] @ '' in the input'')))
         else (case ResolveTCPAddr (splits ! 1) of
                 Some err \<Rightarrow> (None, Some err)
               | None \<Rightarrow>
                   (case SplitHostPort (splits ! 1) of
                      (host, port, err) \<Rightarrow>
                        (Some \<lparr>ID = splits ! 0, Host = host, Port = port\<rparr>, err))))"

section \<open>Facts about status selection\<close>

lemma statusIPs_selected:
  "statusIPs st src = (case selected st of None \<Rightarrow> [] | Some k \<Rightarrow> src (st ! k))"
  by (simp add: statusIPs_def selected_def split: prod.splits)

lemma statusIPs_loop_cases:
  "statusIPs_loop st i (ts0, j0) = (ts', j') \<Longrightarrow>
     (j' = j0 \<and> ts' = ts0 \<and>
        (\<forall>m<length st. Status.State (st ! m) = ''TASK_RUNNING'' \<longrightarrow> Timestamp (st ! m) \<le> ts0)) \<or>
     (\<exists>k<length st. j' = int (i + k) \<and> ts' = Timestamp (st ! k) \<and>
        Status.State (st ! k) = ''TASK_RUNNING'' \<and> ts0 < ts' \<and>
        (\<forall>m<length st. Status.State (st ! m) = ''TASK_RUNNING'' \<longrightarrow> Timestamp (st ! m) \<le> ts') \<and>
        (\<forall>m<k. Status.State (st ! m) = ''TASK_RUNNING'' \<longrightarrow> Timestamp (st ! m) < ts'))"
proof (induction st arbitrary: i ts0 j0)
  case Nil
  then show ?case by simp
next
  case (Cons s st)
  show ?case
  proof (cases "Status.State s = ''TASK_RUNNING'' \<and> Timestamp s > ts0")
    case True
    with Cons.prems have run: "statusIPs_loop st (Suc i) (Timestamp s, int i) = (ts', j')"
      by simp
    from Cons.IH [OF run] show ?thesis
    proof (elim disjE conjE exE)
      assume "j' = int i" "ts' = Timestamp s"
        and le: "\<forall>m<length st. Status.State (st ! m) = ''TASK_RUNNING'' \<longrightarrow> Timestamp (st ! m) \<le> Timestamp s"
      have "\<forall>m<length (s # st). Status.State ((s # st) ! m) = ''TASK_RUNNING'' \<longrightarrow>
              Timestamp ((s # st) ! m) \<le> ts'"
        using le \<open>ts' = Timestamp s\<close> by (auto simp: nth_Cons split: nat.splits)
      with True \<open>j' = int i\<close> \<open>ts' = Timestamp s\<close> show ?thesis
        by (intro disjI2 exI [of _ 0]) simp
    next
      fix k
      assume k: "k < length st" "j' = int (Suc i + k)" "ts' = Timestamp (st ! k)"
        "Status.State (st ! k) = ''TASK_RUNNING''" "Timestamp s < ts'"
        and le: "\<forall>m<length st. Status.State (st ! m) = ''TASK_RUNNING'' \<longrightarrow> Timestamp (st ! m) \<le> ts'"
        and lt: "\<forall>m<k. Status.State (st ! m) = ''TASK_RUNNING'' \<longrightarrow> Timestamp (st ! m) < ts'"
      have a: "\<forall>m<length (s # st). Status.State ((s # st) ! m) = ''TASK_RUNNING'' \<longrightarrow>
              Timestamp ((s # st) ! m) \<le> ts'"
        using le k(5) by (auto simp: nth_Cons split: nat.splits)
      have b: "\<forall>m<Suc k. Status.State ((s # st) ! m) = ''TASK_RUNNING'' \<longrightarrow>
              Timestamp ((s # st) ! m) < ts'"
        using lt k(5) by (auto simp: nth_Cons split: nat.splits)
      from k a b True show ?thesis
        by (intro disjI2 exI [of _ "Suc k"]) simp
    qed
  next
    case False
    with Cons.prems have run: "statusIPs_loop st (Suc i) (ts0, j0) = (ts', j')"
      by auto
    from Cons.IH [OF run] show ?thesis
    proof (elim disjE conjE exE)
      assume "j' = j0" "ts' = ts0"
        and le: "\<forall>m<length st. Status.State (st ! m) = ''TASK_RUNNING'' \<longrightarrow> Timestamp (st ! m) \<le> ts0"
      have "\<forall>m<length (s # st). Status.State ((s # st) ! m) = ''TASK_RUNNING'' \<longrightarrow>
              Timestamp ((s # st) ! m) \<le> ts0"
        using le False by (auto simp: nth_Cons split: nat.splits)
      with \<open>j' = j0\<close> \<open>ts' = ts0\<close> show ?thesis by blast
    next
      fix k
      assume k: "k < length st" "j' = int (Suc i + k)" "ts' = Timestamp (st ! k)"
        "Status.State (st ! k) = ''TASK_RUNNING''" "ts0 < ts'"
        and le: "\<forall>m<length st. Status.State (st ! m) = ''TASK_RUNNING'' \<longrightarrow> Timestamp (st ! m) \<le> ts'"
        and lt: "\<forall>m<k. Status.State (st ! m) = ''TASK_RUNNING'' \<longrightarrow> Timestamp (st ! m) < ts'"
      have a: "\<forall>m<length (s # st). Status.State ((s # st) ! m) = ''TASK_RUNNING'' \<longrightarrow>
              Timestamp ((s # st) ! m) \<le> ts'"
        using le k(5) False by (auto simp: nth_Cons split: nat.splits)
      have b: "\<forall>m<Suc k. Status.State ((s # st) ! m) = ''TASK_RUNNING'' \<longrightarrow>
              Timestamp ((s # st) ! m) < ts'"
        using lt k(5) False by (auto simp: nth_Cons split: nat.splits)
      from k a b show ?thesis
        by (intro disjI2 exI [of _ "Suc k"]) simp
    qed
  qed
qed


lemma selected_cases:
  "(selected st = None \<and>
      (\<forall>m<length st. Status.State (st ! m) = ''TASK_RUNNING'' \<longrightarrow> Timestamp (st ! m) \<le> - 1)) \<or>
   (\<exists>k<length st. selected st = Some k \<and>
      Status.State (st ! k) = ''TASK_RUNNING'' \<and> - 1 < Timestamp (st ! k) \<and>
      (\<forall>m<length st. Status.State (st ! m) = ''TASK_RUNNING'' \<longrightarrow>
          Timestamp (st ! m) \<le> Timestamp (st ! k)) \<and>
      (\<forall>m<k. Status.State (st ! m) = ''TASK_RUNNING'' \<longrightarrow>
          Timestamp (st ! m) < Timestamp (st ! k)))"
proof -
  obtain ts' j' where run: "statusIPs_loop st 0 (- 1, - 1) = (ts', j')"
    by (cases "statusIPs_loop st 0 (- 1, - 1)")
  from statusIPs_loop_cases [OF run] show ?thesis
  proof (elim disjE conjE exE)
    assume "j' = - 1" "ts' = - 1"
      and "\<forall>m<length st. Status.State (st ! m) = ''TASK_RUNNING'' \<longrightarrow> Timestamp (st ! m) \<le> - 1"
    with run show ?thesis by (simp add: selected_def)
  next
    fix k
    assume "k < length st" "j' = int (0 + k)" "ts' = Timestamp (st ! k)"
      "Status.State (st ! k) = ''TASK_RUNNING''" "- 1 < ts'"
      "\<forall>m<length st. Status.State (st ! m) = ''TASK_RUNNING'' \<longrightarrow> Timestamp (st ! m) \<le> ts'"
      "\<forall>m<k. Status.State (st ! m) = ''TASK_RUNNING'' \<longrightarrow> Timestamp (st ! m) < ts'"
    with run have "k < length st \<and> selected st = Some k \<and>
      Status.State (st ! k) = ''TASK_RUNNING'' \<and> - 1 < Timestamp (st ! k) \<and>
      (\<forall>m<length st. Status.State (st ! m) = ''TASK_RUNNING'' \<longrightarrow>
          Timestamp (st ! m) \<le> Timestamp (st ! k)) \<and>
      (\<forall>m<k. Status.State (st ! m) = ''TASK_RUNNING'' \<longrightarrow>
          Timestamp (st ! m) < Timestamp (st ! k))"
      by (simp add: selected_def)
    then show ?thesis by blast
  qed
qed

lemma selected_None_no_running:
  assumes "\<forall>s\<in>set st. Status.State s \<noteq> ''TASK_RUNNING''"
  shows "selected st = None"
proof -
  from selected_cases [of st] show ?thesis
  proof
    assume "selected st = None \<and>
      (\<forall>m<length st. Status.State (st ! m) = ''TASK_RUNNING'' \<longrightarrow> Timestamp (st ! m) \<le> - 1)"
    then show ?thesis by simp
  next
    assume "\<exists>k<length st. selected st = Some k \<and>
      Status.State (st ! k) = ''TASK_RUNNING'' \<and> - 1 < Timestamp (st ! k) \<and>
      (\<forall>m<length st. Status.State (st ! m) = ''TASK_RUNNING'' \<longrightarrow>
          Timestamp (st ! m) \<le> Timestamp (st ! k)) \<and>
      (\<forall>m<k. Status.State (st ! m) = ''TASK_RUNNING'' \<longrightarrow>
          Timestamp (st ! m) < Timestamp (st ! k))"
    then obtain k where "k < length st" "Status.State (st ! k) = ''TASK_RUNNING''" by blast
    with assms show ?thesis using nth_mem by blast
  qed
qed

lemma selected_Some_running:
  assumes "s \<in> set st" "Status.State s = ''TASK_RUNNING''" "- 1 < Timestamp s"
  shows "\<exists>k<length st. selected st = Some k \<and>
      Status.State (st ! k) = ''TASK_RUNNING'' \<and>
      (\<forall>m<length st. Status.State (st ! m) = ''TASK_RUNNING'' \<longrightarrow>
          Timestamp (st ! m) \<le> Timestamp (st ! k)) \<and>
      (\<forall>m<k. Status.State (st ! m) = ''TASK_RUNNING'' \<longrightarrow>
          Timestamp (st ! m) < Timestamp (st ! k))"
proof -
  from assms(1) obtain n where n: "n < length st" "st ! n = s"
    by (auto simp: in_set_conv_nth)
  from selected_cases [of st] show ?thesis
  proof
    assume "selected st = None \<and>
      (\<forall>m<length st. Status.State (st ! m) = ''TASK_RUNNING'' \<longrightarrow> Timestamp (st ! m) \<le> - 1)"
    with n assms(2,3) have False by auto
    then show ?thesis ..
  next
    assume "\<exists>k<length st. selected st = Some k \<and>
      Status.State (st ! k) = ''TASK_RUNNING'' \<and> - 1 < Timestamp (st ! k) \<and>
      (\<forall>m<length st. Status.State (st ! m) = ''TASK_RUNNING'' \<longrightarrow>
          Timestamp (st ! m) \<le> Timestamp (st ! k)) \<and>
      (\<forall>m<k. Status.State (st ! m) = ''TASK_RUNNING'' \<longrightarrow>
          Timestamp (st ! m) < Timestamp (st ! k))"
    then show ?thesis by blast
  qed
qed

text \<open>
  C1 (as amended). Status selection: for every Status sequence in which some
  TASK_RUNNING status has a timestamp greater than -1.0 (the value the scan starts
  from), the selected status has state TASK_RUNNING, no TASK_RUNNING status has a
  greater timestamp, and every TASK_RUNNING status before it in sequence order has a
  strictly smaller one, so that among statuses sharing the maximal timestamp the first
  is selected; \<open>statusIPs\<close> applies the extraction function to that status. When no
  status of a Task has state TASK_RUNNING, selection yields none and the mesos, docker
  and netinfo sources return the empty sequence.
\<close>

theorem status_selection:
  "((\<exists>s\<in>set st. Status.State s = ''TASK_RUNNING'' \<and> - 1 < Timestamp s) \<longrightarrow>
      (\<exists>k<length st. selected st = Some k \<and> statusIPs st src = src (st ! k) \<and>
         Status.State (st ! k) = ''TASK_RUNNING'' \<and>
         (\<forall>m<length st. Status.State (st ! m) = ''TASK_RUNNING'' \<longrightarrow>
             Timestamp (st ! m) \<le> Timestamp (st ! k)) \<and>
         (\<forall>m<k. Status.State (st ! m) = ''TASK_RUNNING'' \<longrightarrow>
             Timestamp (st ! m) < Timestamp (st ! k)))) \<and>
   ((\<forall>s\<in>set (Statuses t). Status.State s \<noteq> ''TASK_RUNNING'') \<longrightarrow>
      selected (Statuses t) = None \<and>
      mesosIPs t = [] \<and> dockerIPs t = [] \<and> networkInfoIPs t = [])"
proof (intro conjI impI)
  assume "\<exists>s\<in>set st. Status.State s = ''TASK_RUNNING'' \<and> - 1 < Timestamp s"
  then obtain s where "s \<in> set st" "Status.State s = ''TASK_RUNNING''" "- 1 < Timestamp s"
    by blast
  from selected_Some_running [OF this] obtain k where k: "k < length st" "selected st = Some k"
    "Status.State (st ! k) = ''TASK_RUNNING''"
    "\<forall>m<length st. Status.State (st ! m) = ''TASK_RUNNING'' \<longrightarrow>
          Timestamp (st ! m) \<le> Timestamp (st ! k)"
    "\<forall>m<k. Status.State (st ! m) = ''TASK_RUNNING'' \<longrightarrow>
          Timestamp (st ! m) < Timestamp (st ! k)"
    by blast
  from k(2) have "statusIPs st src = src (st ! k)"
    by (simp add: statusIPs_selected)
  with k show "\<exists>k<length st. selected st = Some k \<and> statusIPs st src = src (st ! k) \<and>
         Status.State (st ! k) = ''TASK_RUNNING'' \<and>
         (\<forall>m<length st. Status.State (st ! m) = ''TASK_RUNNING'' \<longrightarrow>
             Timestamp (st ! m) \<le> Timestamp (st ! k)) \<and>
         (\<forall>m<k. Status.State (st ! m) = ''TASK_RUNNING'' \<longrightarrow>
             Timestamp (st ! m) < Timestamp (st ! k))"
    by blast
next
  assume none: "\<forall>s\<in>set (Statuses t). Status.State s \<noteq> ''TASK_RUNNING''"
  then show sel: "selected (Statuses t) = None"
    by (rule selected_None_no_running)
  from sel show "mesosIPs t = []"
    by (simp add: mesosIPs_def statusIPs_selected)
  from sel show "dockerIPs t = []"
    by (simp add: dockerIPs_def statusIPs_selected)
  from sel show "networkInfoIPs t = []"
    by (simp add: networkInfoIPs_def statusIPs_selected)
qed


theorem status_selection_witness:
  "selected
     [\<lparr>Timestamp = 9, State = ''TASK_FINISHED'', Labels = [], ContainerStatus = \<lparr>NetworkInfos = []\<rparr>\<rparr>,
      \<lparr>Timestamp = 1, State = ''TASK_RUNNING'', Labels = [], ContainerStatus = \<lparr>NetworkInfos = []\<rparr>\<rparr>,
      \<lparr>Timestamp = 2, State = ''TASK_RUNNING'',
         Labels = [\<lparr>Key = ''MesosContainerizer.NetworkSettings.IPAddress'', Value = ''10.0.0.7''\<rparr>],
         ContainerStatus = \<lparr>NetworkInfos = []\<rparr>\<rparr>,
      \<lparr>Timestamp = 2, State = ''TASK_RUNNING'', Labels = [], ContainerStatus = \<lparr>NetworkInfos = []\<rparr>\<rparr>]
     = Some 2 \<and>
   statusIPs
     [\<lparr>Timestamp = 9, State = ''TASK_FINISHED'', Labels = [], ContainerStatus = \<lparr>NetworkInfos = []\<rparr>\<rparr>,
      \<lparr>Timestamp = 1, State = ''TASK_RUNNING'', Labels = [], ContainerStatus = \<lparr>NetworkInfos = []\<rparr>\<rparr>,
      \<lparr>Timestamp = 2, State = ''TASK_RUNNING'',
         Labels = [\<lparr>Key = ''MesosContainerizer.NetworkSettings.IPAddress'', Value = ''10.0.0.7''\<rparr>],
         ContainerStatus = \<lparr>NetworkInfos = []\<rparr>\<rparr>,
      \<lparr>Timestamp = 2, State = ''TASK_RUNNING'', Labels = [], ContainerStatus = \<lparr>NetworkInfos = []\<rparr>\<rparr>]
     (labels MesosIPLabel) = [''10.0.0.7''] \<and>
   mesosIPs \<lparr>FrameworkID = ''f'', ID = ''t'', Name = ''n'', SlaveID = ''s'', State = ''TASK_FINISHED'',
      Statuses = [\<lparr>Timestamp = 9, State = ''TASK_FINISHED'', Labels = [],
                   ContainerStatus = \<lparr>NetworkInfos = []\<rparr>\<rparr>],
      Resources = \<lparr>PortRanges = ''''\<rparr>, SlaveIPs = []\<rparr> = []"
proof -
  let ?st = "[\<lparr>Timestamp = 9, State = ''TASK_FINISHED'', Labels = [], ContainerStatus = \<lparr>NetworkInfos = []\<rparr>\<rparr>,
      \<lparr>Timestamp = 1, State = ''TASK_RUNNING'', Labels = [], ContainerStatus = \<lparr>NetworkInfos = []\<rparr>\<rparr>,
      \<lparr>Timestamp = 2, State = ''TASK_RUNNING'',
         Labels = [\<lparr>Key = ''MesosContainerizer.NetworkSettings.IPAddress'', Value = ''10.0.0.7''\<rparr>],
         ContainerStatus = \<lparr>NetworkInfos = []\<rparr>\<rparr>,
      \<lparr>Timestamp = 2, State = ''TASK_RUNNING'', Labels = [], ContainerStatus = \<lparr>NetworkInfos = []\<rparr>\<rparr>]"
  let ?t = "\<lparr>FrameworkID = ''f'', ID = ''t'', Name = ''n'', SlaveID = ''s'', State = ''TASK_FINISHED'',
      Statuses = [\<lparr>Timestamp = 9, State = ''TASK_FINISHED'', Labels = [],
                   ContainerStatus = \<lparr>NetworkInfos = []\<rparr>\<rparr>],
      Resources = \<lparr>PortRanges = ''''\<rparr>, SlaveIPs = []\<rparr>"
  note T = status_selection [of ?st "labels MesosIPLabel" ?t]
  have h: "\<exists>s\<in>set ?st. Status.State s = ''TASK_RUNNING'' \<and> - 1 < Timestamp s" by simp
  have n: "\<forall>s\<in>set (Statuses ?t). Status.State s \<noteq> ''TASK_RUNNING''" by simp
  from T h obtain k where k: "selected ?st = Some k"
    "statusIPs ?st (labels MesosIPLabel) = labels MesosIPLabel (?st ! k)"
    by blast
  have two: "selected ?st = Some 2" by (simp add: selected_def)
  with k(1) have "k = 2" by simp
  with k(2) have "statusIPs ?st (labels MesosIPLabel) = [''10.0.0.7'']"
    by (simp add: labels_def MesosIPLabel_def)
  moreover from T n have "mesosIPs ?t = []" by blast
  ultimately show ?thesis using two by simp
qed

text \<open>
  The claim as first stated promised the selection for every Status sequence. A
  sequence whose only TASK_RUNNING status has timestamp -2 has no selected status: the
  scan starts from -1.0 and only a strictly greater timestamp replaces it.
\<close>

theorem status_selection_counterexample:
  "Status.State \<lparr>Timestamp = - 2, State = ''TASK_RUNNING'', Labels = [],
      ContainerStatus = \<lparr>NetworkInfos = []\<rparr>\<rparr> = ''TASK_RUNNING'' \<and>
   selected [\<lparr>Timestamp = - 2, State = ''TASK_RUNNING'', Labels = [],
      ContainerStatus = \<lparr>NetworkInfos = []\<rparr>\<rparr>] = None"
  by (simp add: selected_def)

lemma filter_perm_single:
  assumes "filter P st = [s]" "mset st' = mset st"
  shows "filter P st' = [s]"
proof -
  have "mset (filter P st') = filter_mset P (mset st')" by simp
  also have "\<dots> = filter_mset P (mset st)" using assms(2) by simp
  also have "\<dots> = mset (filter P st)" by simp
  also have "\<dots> = {#s#}" using assms(1) by simp
  finally have "mset (filter P st') = {#s#}" .
  then show ?thesis by (simp only: mset_single_iff)
qed

text \<open>
  C8 (as amended). Order-independence of status selection: when a Status sequence
  holds exactly one TASK_RUNNING entry and its timestamp is greater than -1.0, selection
  returns that entry on every permutation of the sequence; and of two TASK_RUNNING
  statuses with timestamps 1.0 and 2.0, selection returns the one with timestamp 2.0 in
  either order.
\<close>

theorem selection_order_independent:
  "(filter (\<lambda>x. Status.State x = ''TASK_RUNNING'') st = [s] \<and> - 1 < Timestamp s \<and>
      mset st' = mset st \<longrightarrow>
      (\<exists>k<length st'. selected st' = Some k \<and> st' ! k = s \<and> statusIPs st' src = src s)) \<and>
   (Status.State a = ''TASK_RUNNING'' \<and> Status.State b = ''TASK_RUNNING'' \<and>
      Timestamp a = 1 \<and> Timestamp b = 2 \<longrightarrow>
      selected [a, b] = Some 1 \<and> statusIPs [a, b] src = src b \<and>
      selected [b, a] = Some 0 \<and> statusIPs [b, a] src = src b)"
proof (intro conjI impI)
  assume h: "filter (\<lambda>x. Status.State x = ''TASK_RUNNING'') st = [s] \<and> - 1 < Timestamp s \<and>
      mset st' = mset st"
  then have f: "filter (\<lambda>x. Status.State x = ''TASK_RUNNING'') st' = [s]"
    by (blast intro: filter_perm_single)
  then have "s \<in> set (filter (\<lambda>x. Status.State x = ''TASK_RUNNING'') st')" by simp
  then have s: "s \<in> set st'" "Status.State s = ''TASK_RUNNING''" by simp_all
  from h have "- 1 < Timestamp s" by simp
  from selected_Some_running [OF s this] obtain k where k: "k < length st'"
    "selected st' = Some k" "Status.State (st' ! k) = ''TASK_RUNNING''"
    by blast
  from k(1,3) have "st' ! k \<in> set (filter (\<lambda>x. Status.State x = ''TASK_RUNNING'') st')"
    by simp
  with f have "st' ! k = s" by simp
  with k show "\<exists>k<length st'. selected st' = Some k \<and> st' ! k = s \<and> statusIPs st' src = src s"
    by (auto simp: statusIPs_selected)
next
  assume h: "Status.State a = ''TASK_RUNNING'' \<and> Status.State b = ''TASK_RUNNING'' \<and>
      Timestamp a = 1 \<and> Timestamp b = 2"
  then show "selected [a, b] = Some 1"  by (simp add: selected_def)
  from h show "statusIPs [a, b] src = src b" by (simp add: statusIPs_def)
  from h show "selected [b, a] = Some 0"  by (simp add: selected_def)
  from h show "statusIPs [b, a] src = src b" by (simp add: statusIPs_def)
qed

theorem selection_order_independent_witness:
  "(\<exists>k<2. selected
      [\<lparr>Timestamp = 7, State = ''TASK_RUNNING'', Labels = [], ContainerStatus = \<lparr>NetworkInfos = []\<rparr>\<rparr>,
       \<lparr>Timestamp = 8, State = ''TASK_STAGING'', Labels = [], ContainerStatus = \<lparr>NetworkInfos = []\<rparr>\<rparr>]
      = Some k \<and>
      [\<lparr>Timestamp = 7, State = ''TASK_RUNNING'', Labels = [], ContainerStatus = \<lparr>NetworkInfos = []\<rparr>\<rparr>,
       \<lparr>Timestamp = 8, State = ''TASK_STAGING'', Labels = [], ContainerStatus = \<lparr>NetworkInfos = []\<rparr>\<rparr>] ! k
      = \<lparr>Timestamp = 7, State = ''TASK_RUNNING'', Labels = [], ContainerStatus = \<lparr>NetworkInfos = []\<rparr>\<rparr>) \<and>
   selected
     [\<lparr>Timestamp = 1, State = ''TASK_RUNNING'', Labels = [], ContainerStatus = \<lparr>NetworkInfos = []\<rparr>\<rparr>,
      \<lparr>Timestamp = 2, State = ''TASK_RUNNING'', Labels = [], ContainerStatus = \<lparr>NetworkInfos = []\<rparr>\<rparr>]
     = Some 1 \<and>
   selected
     [\<lparr>Timestamp = 2, State = ''TASK_RUNNING'', Labels = [], ContainerStatus = \<lparr>NetworkInfos = []\<rparr>\<rparr>,
      \<lparr>Timestamp = 1, State = ''TASK_RUNNING'', Labels = [], ContainerStatus = \<lparr>NetworkInfos = []\<rparr>\<rparr>]
     = Some 0"
proof -
  let ?r = "\<lparr>Timestamp = 7, State = ''TASK_RUNNING'', Labels = [], ContainerStatus = \<lparr>NetworkInfos = []\<rparr>\<rparr>"
  let ?g = "\<lparr>Timestamp = 8, State = ''TASK_STAGING'', Labels = [], ContainerStatus = \<lparr>NetworkInfos = []\<rparr>\<rparr>"
  let ?a = "\<lparr>Timestamp = 1, State = ''TASK_RUNNING'', Labels = [], ContainerStatus = \<lparr>NetworkInfos = []\<rparr>\<rparr>"
  let ?b = "\<lparr>Timestamp = 2, State = ''TASK_RUNNING'', Labels = [], ContainerStatus = \<lparr>NetworkInfos = []\<rparr>\<rparr>"
  note T = selection_order_independent [of "[?g, ?r]" ?r "[?r, ?g]" "\<lambda>s. []" ?a ?b]
  have h1: "filter (\<lambda>x. Status.State x = ''TASK_RUNNING'') [?g, ?r] = [?r] \<and> - 1 < Timestamp ?r \<and>
      mset [?r, ?g] = mset [?g, ?r]"
    by simp
  have h2: "Status.State ?a = ''TASK_RUNNING'' \<and> Status.State ?b = ''TASK_RUNNING'' \<and>
      Timestamp ?a = 1 \<and> Timestamp ?b = 2"
    by simp
  from T h1 have "\<exists>k<length [?r, ?g]. selected [?r, ?g] = Some k \<and> [?r, ?g] ! k = ?r \<and>
      statusIPs [?r, ?g] (\<lambda>s. []) = []"
    by (rule conjunct1 [THEN mp])
  then obtain k where k: "k < length [?r, ?g]" "selected [?r, ?g] = Some k" "[?r, ?g] ! k = ?r"
    by blast
  from k(1) have "k < 2" by simp
  with k(2,3) have c1: "\<exists>k<2. selected [?r, ?g] = Some k \<and> [?r, ?g] ! k = ?r"
    by blast
  from T h2 have "selected [?a, ?b] = Some 1 \<and> statusIPs [?a, ?b] (\<lambda>s. []) = [] \<and>
      selected [?b, ?a] = Some 0 \<and> statusIPs [?b, ?a] (\<lambda>s. []) = []"
    by (rule conjunct2 [THEN mp])
  with c1 show ?thesis by blast
qed

text \<open>
  Without the bound on the timestamp the first half fails: a sequence whose single
  TASK_RUNNING entry has timestamp -1.0 has no selected status, in either order.
\<close>

theorem selection_order_independent_counterexample:
  "filter (\<lambda>x. Status.State x = ''TASK_RUNNING'')
     [\<lparr>Timestamp = 5, State = ''TASK_STAGING'', Labels = [], ContainerStatus = \<lparr>NetworkInfos = []\<rparr>\<rparr>,
      \<lparr>Timestamp = - 1, State = ''TASK_RUNNING'', Labels = [], ContainerStatus = \<lparr>NetworkInfos = []\<rparr>\<rparr>]
     = [\<lparr>Timestamp = - 1, State = ''TASK_RUNNING'', Labels = [], ContainerStatus = \<lparr>NetworkInfos = []\<rparr>\<rparr>] \<and>
   selected
     [\<lparr>Timestamp = 5, State = ''TASK_STAGING'', Labels = [], ContainerStatus = \<lparr>NetworkInfos = []\<rparr>\<rparr>,
      \<lparr>Timestamp = - 1, State = ''TASK_RUNNING'', Labels = [], ContainerStatus = \<lparr>NetworkInfos = []\<rparr>\<rparr>]
     = None \<and>
   selected
     [\<lparr>Timestamp = - 1, State = ''TASK_RUNNING'', Labels = [], ContainerStatus = \<lparr>NetworkInfos = []\<rparr>\<rparr>,
      \<lparr>Timestamp = 5, State = ''TASK_STAGING'', Labels = [], ContainerStatus = \<lparr>NetworkInfos = []\<rparr>\<rparr>]
     = None"
  by (simp add: selected_def)

section \<open>Facts about the sources and the resolution engine\<close>

lemma labels_loop_filter:
  "labels_loop key ls vs = vs @ map Value (filter (\<lambda>l. Key l = key) ls)"
  by (induction ls arbitrary: vs) simp_all

lemma ipAddresses_loop_map:
  "ipAddresses_loop as ips = ips @ map IPAddress.IPAddress as"
  by (induction as arbitrary: ips) simp_all

lemma netinfo_loop_concat:
  "netinfo_loop ns ips =
     ips @ concat (map (\<lambda>n. if IPAddresses n \<noteq> [] then map IPAddress.IPAddress (IPAddresses n)
                             else if NetworkInfo.IPAddress n \<noteq> '''' then [NetworkInfo.IPAddress n]
                             else []) ns)"
  by (induction ns arbitrary: ips) (simp_all add: ipAddresses_loop_map)

lemma networkInfo_src_padding:
  "networkInfo_src s =
     replicate (length (NetworkInfos (ContainerStatus s))) '''' @
     concat (map (\<lambda>n. if IPAddresses n \<noteq> [] then map IPAddress.IPAddress (IPAddresses n)
                       else if NetworkInfo.IPAddress n \<noteq> '''' then [NetworkInfo.IPAddress n]
                       else []) (NetworkInfos (ContainerStatus s)))"
  by (simp add: networkInfo_src_def netinfo_loop_concat)

lemma IPs_inner_filter:
  "IPs_inner ParseIP cs ips = ips @ filter (\<lambda>ip. ip \<noteq> []) (map ParseIP cs)"
  by (induction cs arbitrary: ips) (simp_all add: Let_def)

lemma IPs_loop_concat:
  "IPs_loop ParseIP t srcs ips =
     ips @ concat (map (\<lambda>name. case sources name of
                                 None \<Rightarrow> []
                               | Some src \<Rightarrow> filter (\<lambda>ip. ip \<noteq> []) (map ParseIP (src t))) srcs)"
  by (induction srcs arbitrary: ips) (simp_all add: IPs_inner_filter split: option.splits)

lemma MapPort_inner_find:
  "MapPort_inner pms hostport =
     map_option ContainerPort (find (\<lambda>pm. HostPort pm = hostport) pms)"
  by (induction pms) simp_all

lemma find_app:
  "find P (xs @ ys) = (case find P xs of None \<Rightarrow> find P ys | Some x \<Rightarrow> Some x)"
  by (induction xs) simp_all

lemma MapPort_loop_find:
  "MapPort_loop ni hostport =
     (case find (\<lambda>pm. HostPort pm = hostport) (concat (map PortMappings ni)) of
        None \<Rightarrow> hostport
      | Some pm \<Rightarrow> ContainerPort pm)"
  by (induction ni) (simp_all add: MapPort_inner_find find_app split: option.splits)

lemma MapPort_nonempty:
  "Statuses t \<noteq> [] \<Longrightarrow>
   MapPort t hostport =
     Inr (case find (\<lambda>pm. HostPort pm = hostport)
                 (concat (map PortMappings (NetworkInfos (ContainerStatus (hd (Statuses t)))))) of
            None \<Rightarrow> hostport
          | Some pm \<Rightarrow> ContainerPort pm)"
  by (cases "Statuses t") (simp_all add: MapPort_def MapPort_loop_find)

text \<open>
  C2. Port mapping lookup: MapPort searches the NetworkInfos of the first Status for a
  PortMapping with the given host port and returns the first match's container port,
  and the host port itself when there is none (\<open>MapPort_nonempty\<close>, for a Task that
  has a Status). The claim also promises the host port for a Task whose Status sequence
  is empty. There the code indexes \<open>t.Statuses[0]\<close> without a guard: on a Task with no
  Status and host port 8080 it panics with an index out of range instead of
  returning 8080.
\<close>

theorem MapPort_empty_Statuses:
  "MapPort \<lparr>FrameworkID = ''f'', ID = ''t'', Name = ''n'', SlaveID = ''s'', State = ''TASK_STAGING'',
      Statuses = [], Resources = \<lparr>PortRanges = ''[]''\<rparr>, SlaveIPs = []\<rparr> 8080
   = Inl IndexOutOfRange"
  by (simp add: MapPort_def)

text \<open>
  C3. The netinfo source: the claim describes the result as exactly the addresses of
  the selected status's NetworkInfos, in order. The code builds its result with
  \<open>make([]string, n)\<close>, a slice that already holds \<open>n\<close> empty strings, and appends the
  addresses behind them (\<open>networkInfo_src_padding\<close>); the sibling \<open>labels\<close> starts
  from length 0. On a Task whose running status has one NetworkInfo with the single
  address 10.0.0.2 the result is the empty string followed by the address.
\<close>

theorem networkInfoIPs_leading_empty_strings:
  "networkInfoIPs \<lparr>FrameworkID = ''f'', ID = ''t'', Name = ''n'', SlaveID = ''s'', State = ''TASK_RUNNING'',
      Statuses = [\<lparr>Timestamp = 1, State = ''TASK_RUNNING'', Labels = [],
        ContainerStatus = \<lparr>NetworkInfos =
          [\<lparr>IPAddresses = [\<lparr>IPAddress.IPAddress = ''10.0.0.2''\<rparr>], PortMappings = [], IPAddress = ''''\<rparr>]\<rparr>\<rparr>],
      Resources = \<lparr>PortRanges = ''[]''\<rparr>, SlaveIPs = []\<rparr>
   = ['''', ''10.0.0.2'']"
  by (simp add: networkInfoIPs_def statusIPs_def networkInfo_src_def)

text \<open>
  C4. The resolution engine: for a Task and a list of source names, \<open>IPs\<close> returns the
  concatenation, in the order of the names, of what each recognised source contributes:
  the candidates of the source that parse (\<open>ParseIP\<close> returns a non-empty address), in
  order, every candidate that does not parse being left out. A name has no source
  exactly when it is none of host, mesos, docker and netinfo, and such a name
  contributes nothing; the four names stand for hostIPs, mesosIPs, dockerIPs and
  networkInfoIPs. The result is a plain list: there is no error value.
\<close>

theorem IPs_concat_sources:
  "IPs ParseIP (Some t) srcs =
     concat (map (\<lambda>name. case sources name of
                           None \<Rightarrow> []
                         | Some src \<Rightarrow> filter (\<lambda>ip. ip \<noteq> []) (map ParseIP (src t))) srcs) \<and>
   (sources name = None) = (name \<notin> {''host'', ''mesos'', ''docker'', ''netinfo''}) \<and>
   sources ''host'' = Some hostIPs \<and> sources ''mesos'' = Some mesosIPs \<and>
   sources ''docker'' = Some dockerIPs \<and> sources ''netinfo'' = Some networkInfoIPs"
  by (simp add: IPs_def IPs_loop_concat sources_def)

theorem IPs_concat_sources_witness:
  "IPs (\<lambda>s. if s = ''10.0.0.1'' then [10, 0, 0, 1] else if s = ''10.0.0.2'' then [10, 0, 0, 2] else [])
     (Some \<lparr>FrameworkID = ''f'', ID = ''t'', Name = ''n'', SlaveID = ''s'', State = ''TASK_RUNNING'',
        Statuses = [\<lparr>Timestamp = 1, State = ''TASK_RUNNING'', Labels = [],
          ContainerStatus = \<lparr>NetworkInfos =
            [\<lparr>IPAddresses = [\<lparr>IPAddress.IPAddress = ''10.0.0.2''\<rparr>], PortMappings = [],
              IPAddress = ''''\<rparr>]\<rparr>\<rparr>],
        Resources = \<lparr>PortRanges = ''[]''\<rparr>, SlaveIPs = [''10.0.0.1'', ''not-an-ip'']\<rparr>)
     [''host'', ''rack'', ''netinfo'']
   = [[10, 0, 0, 1], [10, 0, 0, 2]]"
  using IPs_concat_sources
    [of "\<lambda>s. if s = ''10.0.0.1'' then [10, 0, 0, 1] else if s = ''10.0.0.2'' then [10, 0, 0, 2] else []"
        "\<lparr>FrameworkID = ''f'', ID = ''t'', Name = ''n'', SlaveID = ''s'', State = ''TASK_RUNNING'',
        Statuses = [\<lparr>Timestamp = 1, State = ''TASK_RUNNING'', Labels = [],
          ContainerStatus = \<lparr>NetworkInfos =
            [\<lparr>IPAddresses = [\<lparr>IPAddress.IPAddress = ''10.0.0.2''\<rparr>], PortMappings = [],
              IPAddress = ''''\<rparr>]\<rparr>\<rparr>],
        Resources = \<lparr>PortRanges = ''[]''\<rparr>, SlaveIPs = [''10.0.0.1'', ''not-an-ip'']\<rparr>"
        "[''host'', ''rack'', ''netinfo'']" "''rack''"]
  by (simp add: sources_def hostIPs_def networkInfoIPs_def statusIPs_def networkInfo_src_def)

text \<open>
  C9. The best-address accessor: \<open>IP\<close> returns the string form of the first element of
  the sequence \<open>IPs\<close> returns for the same arguments, and the empty string when that
  sequence is empty.
\<close>

theorem IP_first_of_IPs:
  "IP ParseIP String t srcs =
     (if IPs ParseIP t srcs = [] then '''' else String (hd (IPs ParseIP t srcs)))"
  by (simp add: IP_def Let_def hd_conv_nth)

text \<open>
  C10. Nil receiver: on a nil Task pointer, for every source list, \<open>IPs\<close> returns the
  empty (nil) sequence and \<open>IP\<close> the empty string; no source function is applied to
  the pointer.
\<close>

theorem nil_Task_total:
  "IPs ParseIP None srcs = [] \<and> IP ParseIP String None srcs = ''''"
  by (simp add: IP_def IPs_def)

section \<open>Facts about Split\<close>

lemma Split_not_Nil: "Split s sep \<noteq> []"
  by (induction s) (auto split: list.splits)

lemma Split_no_sep: "sep \<notin> set s \<Longrightarrow> Split s sep = [s]"
  by (induction s) auto

lemma Split_cut: "sep \<notin> set a \<Longrightarrow> Split (a @ sep # b) sep = a # Split b sep"
  by (induction a) auto

lemma length_Split: "length (Split s sep) = Suc (count_list s sep)"
proof (induction s)
  case Nil
  then show ?case by simp
next
  case (Cons c s)
  then show ?case
    by (cases "Split s sep") (auto simp: Split_not_Nil)
qed

lemma count_one_decompose:
  "count_list s c = 1 \<longleftrightarrow> (\<exists>a b. s = a @ c # b \<and> c \<notin> set a \<and> c \<notin> set b)"
proof
  assume "count_list s c = 1"
  then show "\<exists>a b. s = a @ c # b \<and> c \<notin> set a \<and> c \<notin> set b"
  proof (induction s)
    case Nil
    then show ?case by simp
  next
    case (Cons x s)
    show ?case
    proof (cases "x = c")
      case True
      with Cons.prems have "count_list s c = 0" by simp
      then have "c \<notin> set s" by (simp add: count_list_0_iff)
      with True have "x # s = [] @ c # s \<and> c \<notin> set [] \<and> c \<notin> set s" by simp
      then show ?thesis by blast
    next
      case False
      with Cons.prems have "count_list s c = 1" by simp
      from Cons.IH [OF this] obtain a b where "s = a @ c # b" "c \<notin> set a" "c \<notin> set b"
        by blast
      with False have "x # s = (x # a) @ c # b \<and> c \<notin> set (x # a) \<and> c \<notin> set b" by simp
      then show ?thesis by blast
    qed
  qed
next
  assume "\<exists>a b. s = a @ c # b \<and> c \<notin> set a \<and> c \<notin> set b"
  then obtain a b where "s = a @ c # b" "c \<notin> set a" "c \<notin> set b" by blast
  then show "count_list s c = 1"
    by (simp add: count_list_0_iff)
qed

section \<open>Facts about Parse\<close>

lemma Parse_format_error:
  "count_list input CHR ''@'' \<noteq> 1 \<Longrightarrow>
   Parse R S input = (None, Some (Errorf (''Expect one `@'' @ [CHR 0x27] @ '' in the input'')))"
  by (simp add: Parse_def length_Split)

lemma Parse_one_at:
  assumes "CHR ''@'' \<notin> set ident" "CHR ''@'' \<notin> set rhs"
  shows "Parse R S (ident @ CHR ''@'' # rhs) =
     (case R rhs of
        Some err \<Rightarrow> (None, Some err)
      | None \<Rightarrow> (case S rhs of (host, port, err) \<Rightarrow>
                   (Some \<lparr>ID = ident, Host = host, Port = port\<rparr>, err)))"
  using assms by (simp add: Parse_def Split_cut Split_no_sep Let_def split: option.splits prod.splits)

text \<open>
  C7. Peer identifier parsing. An input whose number of \<open>@\<close> is not one fails with the
  format error. An input \<open>ident@rhs\<close> with a single \<open>@\<close> fails with the error of the
  address resolution when \<open>rhs\<close> does not resolve, and otherwise returns the identifier
  with the host and the port \<open>net.SplitHostPort\<close> finds in \<open>rhs\<close>, together with the
  error of that split. So Parse succeeds (its error is nil) exactly when the input has
  exactly one \<open>@\<close> and its right-hand side resolves and splits into an explicit host and
  port. Where \<open>10.0.0.5:5050\<close> resolves and splits into \<open>10.0.0.5\<close> and \<open>5050\<close>, the
  input \<open>sched@10.0.0.5:5050\<close> yields the id \<open>sched\<close>, the host \<open>10.0.0.5\<close> and the
  port \<open>5050\<close>.
\<close>

theorem Parse_spec:
  "(count_list input CHR ''@'' \<noteq> 1 \<longrightarrow>
      Parse R S input = (None, Some (Errorf (''Expect one `@'' @ [CHR 0x27] @ '' in the input'')))) \<and>
   (CHR ''@'' \<notin> set ident \<and> CHR ''@'' \<notin> set rhs \<and> R rhs = Some e \<longrightarrow>
      Parse R S (ident @ CHR ''@'' # rhs) = (None, Some e)) \<and>
   (CHR ''@'' \<notin> set ident \<and> CHR ''@'' \<notin> set rhs \<and> R rhs = None \<and> S rhs = (host, port, err) \<longrightarrow>
      Parse R S (ident @ CHR ''@'' # rhs) = (Some \<lparr>ID = ident, Host = host, Port = port\<rparr>, err)) \<and>
   (snd (Parse R S input) = None) =
      (\<exists>ident rhs. input = ident @ CHR ''@'' # rhs \<and> CHR ''@'' \<notin> set ident \<and> CHR ''@'' \<notin> set rhs \<and>
         R rhs = None \<and> snd (snd (S rhs)) = None) \<and>
   (R ''10.0.0.5:5050'' = None \<and> S ''10.0.0.5:5050'' = (''10.0.0.5'', ''5050'', None) \<longrightarrow>
      Parse R S ''sched@10.0.0.5:5050'' =
        (Some \<lparr>ID = ''sched'', Host = ''10.0.0.5'', Port = ''5050''\<rparr>, None))"
proof (intro conjI impI)
  assume "count_list input CHR ''@'' \<noteq> 1"
  then show "Parse R S input = (None, Some (Errorf (''Expect one `@'' @ [CHR 0x27] @ '' in the input'')))"
    by (rule Parse_format_error)
next
  assume "CHR ''@'' \<notin> set ident \<and> CHR ''@'' \<notin> set rhs \<and> R rhs = Some e"
  then show "Parse R S (ident @ CHR ''@'' # rhs) = (None, Some e)"
    by (simp add: Parse_one_at)
next
  assume "CHR ''@'' \<notin> set ident \<and> CHR ''@'' \<notin> set rhs \<and> R rhs = None \<and> S rhs = (host, port, err)"
  then show "Parse R S (ident @ CHR ''@'' # rhs) = (Some \<lparr>ID = ident, Host = host, Port = port\<rparr>, err)"
    by (simp add: Parse_one_at)
next
  show "(snd (Parse R S input) = None) =
      (\<exists>ident rhs. input = ident @ CHR ''@'' # rhs \<and> CHR ''@'' \<notin> set ident \<and> CHR ''@'' \<notin> set rhs \<and>
         R rhs = None \<and> snd (snd (S rhs)) = None)"
  proof (cases "count_list input CHR ''@'' = 1")
    case False
    then have "snd (Parse R S input) \<noteq> None"
      by (simp add: Parse_format_error)
    moreover have "\<not> (\<exists>ident rhs. input = ident @ CHR ''@'' # rhs \<and>
        CHR ''@'' \<notin> set ident \<and> CHR ''@'' \<notin> set rhs)"
      using False count_one_decompose [of input "CHR ''@''"] by blast
    ultimately show ?thesis by blast
  next
    case True
    then obtain a b where ab: "input = a @ CHR ''@'' # b" "CHR ''@'' \<notin> set a" "CHR ''@'' \<notin> set b"
      using count_one_decompose [of input "CHR ''@''"] by blast
    have uniq: "ident = a \<and> rhs = b"
      if "input = ident @ CHR ''@'' # rhs" "CHR ''@'' \<notin> set ident" "CHR ''@'' \<notin> set rhs"
      for ident rhs
    proof -
      from that ab have "[ident, rhs] = [a, b]"
        by (metis Split_cut Split_no_sep)
      then show ?thesis by simp
    qed
    have "(snd (Parse R S input) = None) = (R b = None \<and> snd (snd (S b)) = None)"
      using ab by (auto simp: Parse_one_at split: option.splits prod.splits)
    also have "\<dots> = (\<exists>ident rhs. input = ident @ CHR ''@'' # rhs \<and> CHR ''@'' \<notin> set ident \<and>
         CHR ''@'' \<notin> set rhs \<and> R rhs = None \<and> snd (snd (S rhs)) = None)"
      using ab uniq by blast
    finally show ?thesis .
  qed
next
  assume "R ''10.0.0.5:5050'' = None \<and> S ''10.0.0.5:5050'' = (''10.0.0.5'', ''5050'', None)"
  then show "Parse R S ''sched@10.0.0.5:5050'' =
        (Some \<lparr>ID = ''sched'', Host = ''10.0.0.5'', Port = ''5050''\<rparr>, None)"
    by (simp add: Parse_def)
qed

theorem Parse_spec_witness:
  "Parse (\<lambda>a. if a = ''10.0.0.5:5050'' then None else Some (NetError ''no such host''))
         (\<lambda>a. if a = ''10.0.0.5:5050'' then (''10.0.0.5'', ''5050'', None)
              else ('''', '''', Some (NetError ''missing port in address'')))
         ''sched@10.0.0.5:5050''
     = (Some \<lparr>ID = ''sched'', Host = ''10.0.0.5'', Port = ''5050''\<rparr>, None) \<and>
   Parse (\<lambda>a. if a = ''10.0.0.5:5050'' then None else Some (NetError ''no such host''))
         (\<lambda>a. if a = ''10.0.0.5:5050'' then (''10.0.0.5'', ''5050'', None)
              else ('''', '''', Some (NetError ''missing port in address'')))
         ''sched''
     = (None, Some (Errorf (''Expect one `@'' @ [CHR 0x27] @ '' in the input''))) \<and>
   Parse (\<lambda>a. if a = ''10.0.0.5:5050'' then None else Some (NetError ''no such host''))
         (\<lambda>a. if a = ''10.0.0.5:5050'' then (''10.0.0.5'', ''5050'', None)
              else ('''', '''', Some (NetError ''missing port in address'')))
         ''a@b@10.0.0.5:5050''
     = (None, Some (Errorf (''Expect one `@'' @ [CHR 0x27] @ '' in the input''))) \<and>
   Parse (\<lambda>a. if a = ''10.0.0.5:5050'' then None else Some (NetError ''no such host''))
         (\<lambda>a. if a = ''10.0.0.5:5050'' then (''10.0.0.5'', ''5050'', None)
              else ('''', '''', Some (NetError ''missing port in address'')))
         ''sched@nowhere:5050''
     = (None, Some (NetError ''no such host''))"
proof -
  let ?R = "\<lambda>a. if a = ''10.0.0.5:5050'' then None else Some (NetError ''no such host'')"
  let ?S = "\<lambda>a. if a = ''10.0.0.5:5050'' then (''10.0.0.5'', ''5050'', None)
              else ('''', '''', Some (NetError ''missing port in address''))"
  have ok: "?R ''10.0.0.5:5050'' = None \<and> ?S ''10.0.0.5:5050'' = (''10.0.0.5'', ''5050'', None)"
    by simp
  have none: "count_list ''sched'' CHR ''@'' \<noteq> 1" by simp
  have two: "count_list ''a@b@10.0.0.5:5050'' CHR ''@'' \<noteq> 1" by simp
  have bad: "CHR ''@'' \<notin> set ''sched'' \<and> CHR ''@'' \<notin> set ''nowhere:5050'' \<and>
      ?R ''nowhere:5050'' = Some (NetError ''no such host'')"
    by simp
  have 1: "Parse ?R ?S ''sched@10.0.0.5:5050''
     = (Some \<lparr>ID = ''sched'', Host = ''10.0.0.5'', Port = ''5050''\<rparr>, None)"
    using Parse_spec [of _ ?R ?S] ok by blast
  have 2: "Parse ?R ?S ''sched''
     = (None, Some (Errorf (''Expect one `@'' @ [CHR 0x27] @ '' in the input'')))"
    using Parse_spec [of "''sched''" ?R ?S] none by blast
  have 3: "Parse ?R ?S ''a@b@10.0.0.5:5050''
     = (None, Some (Errorf (''Expect one `@'' @ [CHR 0x27] @ '' in the input'')))"
    using Parse_spec [of "''a@b@10.0.0.5:5050''" ?R ?S] two by blast
  have "Parse ?R ?S (''sched'' @ CHR ''@'' # ''nowhere:5050'') = (None, Some (NetError ''no such host''))"
    using Parse_spec [of _ ?R ?S "''sched''" "''nowhere:5050''" "NetError ''no such host''"] bad
    by blast
  then have 4: "Parse ?R ?S ''sched@nowhere:5050'' = (None, Some (NetError ''no such host''))"
    by simp
  from 1 2 3 4 show ?thesis by blast
qed

section \<open>Facts about Atoi and Itoa\<close>

lemma foldl_decimal_mono:
  "(n::nat) \<le> foldl (\<lambda>n c. 10 * n + (of_char c - 48)) n s"
proof (induction s arbitrary: n)
  case Nil
  then show ?case by simp
next
  case (Cons c s)
  have "n \<le> 10 * n + (of_char c - 48)" by simp
  also have "\<dots> \<le> foldl (\<lambda>n c. 10 * n + (of_char c - 48)) (10 * n + (of_char c - 48)) s"
    by (rule Cons.IH)
  finally show ?case by simp
qed

lemma Atoi_scan_digits:
  "list_all isDigit s \<Longrightarrow> n < 2 ^ 64 \<Longrightarrow>
   Atoi_scan s n =
     (if foldl (\<lambda>n c. 10 * n + (of_char c - 48)) n s < 2 ^ 64
      then Inr (foldl (\<lambda>n c. 10 * n + (of_char c - 48)) n s)
      else Inl ''value out of range'')"
proof (induction s arbitrary: n)
  case Nil
  then show ?case by simp
next
  case (Cons c s)
  let ?m = "n * 10 + (of_char c - 48)"
  have m: "10 * n + (of_char c - 48) = ?m" by simp
  show ?case
  proof (cases "2 ^ 64 \<le> ?m")
    case True
    have "?m \<le> foldl (\<lambda>n c. 10 * n + (of_char c - 48)) ?m s"
      by (rule foldl_decimal_mono)
    with True have "\<not> foldl (\<lambda>n c. 10 * n + (of_char c - 48)) ?m s < 2 ^ 64"
      by linarith
    with True Cons.prems show ?thesis by (simp add: m)
  next
    case False
    then have "?m < 2 ^ 64" by simp
    with Cons.IH [OF _ this] Cons.prems False show ?thesis by (simp add: m)
  qed
qed

lemma Atoi_scan_decimal:
  "list_all isDigit (strip_plus s) \<Longrightarrow>
   Atoi_scan (strip_plus s) 0 =
     (if decimal_value s < 2 ^ 64 then Inr (decimal_value s) else Inl ''value out of range'')"
  by (simp add: Atoi_scan_digits decimal_value_def)

lemma Atoi_scan_non_digit:
  "\<not> list_all isDigit s \<Longrightarrow> isl (Atoi_scan s n)"
  by (induction s arbitrary: n) auto

lemma decimal_text_hd:
  "decimal_text s \<Longrightarrow> s \<noteq> [] \<and> hd s \<noteq> CHR ''-''"
  by (cases s) (auto simp: decimal_text_def strip_plus_def isDigit_def split: if_splits)

lemma Atoi_fits_int:
  assumes "fits_int s"
  shows "Atoi s = Inr (int (decimal_value s))"
proof -
  from assms have d: "decimal_text s" and v: "decimal_value s < 2 ^ 63"
    by (simp_all add: fits_int_def)
  from d have hd: "s \<noteq> []" "hd s \<noteq> CHR ''-''" using decimal_text_hd by blast+
  have body: "(if s \<noteq> [] \<and> (hd s = CHR ''-'' \<or> hd s = CHR ''+'') then tl s else s) = strip_plus s"
    using hd by (simp add: strip_plus_def)
  from d have ne: "strip_plus s \<noteq> []" and dig: "list_all isDigit (strip_plus s)"
    by (simp_all add: decimal_text_def)
  from v have "decimal_value s < 2 ^ 64" by (rule less_trans) simp
  then have scan: "Atoi_scan (strip_plus s) 0 = Inr (decimal_value s)"
    by (simp add: Atoi_scan_decimal [OF dig])
  show ?thesis
    unfolding Atoi_def Let_def body
    using hd ne v by (simp add: scan not_le)
qed

lemma Atoi_not_fits_int:
  assumes "CHR ''-'' \<notin> set s" "\<not> fits_int s"
  shows "isl (Atoi s)"
proof -
  from assms(1) have hd: "s = [] \<or> hd s \<noteq> CHR ''-''" by (cases s) auto
  have body: "(if s \<noteq> [] \<and> (hd s = CHR ''-'' \<or> hd s = CHR ''+'') then tl s else s) = strip_plus s"
    using hd by (auto simp: strip_plus_def)
  have neg: "\<not> (s \<noteq> [] \<and> hd s = CHR ''-'')" using hd by auto
  show ?thesis
  proof (cases "strip_plus s = []")
    case True
    then show ?thesis unfolding Atoi_def Let_def body by simp
  next
    case ne: False
    show ?thesis
    proof (cases "list_all isDigit (strip_plus s)")
      case False
      then have "isl (Atoi_scan (strip_plus s) 0)" by (rule Atoi_scan_non_digit)
      with ne show ?thesis
        unfolding Atoi_def Let_def body by (auto simp: isl_def)
    next
      case True
      with ne assms(2) have big: "\<not> decimal_value s < 2 ^ 63"
        by (simp add: fits_int_def decimal_text_def)
      with ne neg show ?thesis
        unfolding Atoi_def Let_def body
        by (simp add: Atoi_scan_decimal [OF True] not_less)
    qed
  qed
qed

section \<open>Facts about TrimSpace\<close>

lemma spaceRunes_prefix_unique:
  "\<forall>v\<in>set spaceRunes. \<forall>w\<in>set spaceRunes. prefix v w \<longrightarrow> v = w"
  by (simp add: spaceRunes_def)

lemma spaceRunes_suffix_unique:
  "\<forall>v\<in>set spaceRunes. \<forall>w\<in>set spaceRunes. suffix v w \<longrightarrow> v = w"
  by (simp add: spaceRunes_def suffix_to_prefix)

lemma spaceRunes_tail_start:
  "\<forall>v\<in>set spaceRunes. \<forall>w\<in>set spaceRunes. hd w \<notin> set (tl v)"
  by (simp add: spaceRunes_def)

lemma spaceRunes_chars:
  "w \<in> set spaceRunes \<Longrightarrow>
     w \<noteq> [] \<and> CHR '','' \<notin> set w \<and> CHR ''['' \<notin> set w \<and> CHR '']'' \<notin> set w \<and>
     \<not> isDigit (hd w) \<and> \<not> isDigit (last w) \<and> hd w \<noteq> CHR ''+''"
  by (auto simp: spaceRunes_def isDigit_def)

lemma find_space_prefix:
  assumes "w \<in> set spaceRunes"
  shows "find (\<lambda>v. prefix v (w @ s)) spaceRunes = Some w"
proof (cases "find (\<lambda>v. prefix v (w @ s)) spaceRunes")
  case None
  with assms show ?thesis by (auto simp: find_None_iff)
next
  case (Some v)
  then have v: "v \<in> set spaceRunes" "prefix v (w @ s)"
    by (auto simp: find_Some_iff)
  have "prefix w (w @ s)" by simp
  with v(2) have "prefix v w \<or> prefix w v" by (rule prefix_same_cases)
  with v(1) assms spaceRunes_prefix_unique have "v = w" by blast
  with Some show ?thesis by simp
qed

lemma find_space_suffix:
  assumes "w \<in> set spaceRunes"
  shows "find (\<lambda>v. suffix v (s @ w)) spaceRunes = Some w"
proof (cases "find (\<lambda>v. suffix v (s @ w)) spaceRunes")
  case None
  have "suffix w (s @ w)" by (simp add: suffix_def)
  with None assms show ?thesis by (auto simp: find_None_iff)
next
  case (Some v)
  then have v: "v \<in> set spaceRunes" "suffix v (s @ w)"
    by (auto simp: find_Some_iff)
  have "suffix w (s @ w)" by (simp add: suffix_def)
  with v(2) have "suffix v w \<or> suffix w v" by (rule suffix_same_cases)
  with v(1) assms spaceRunes_suffix_unique have "v = w" by blast
  with Some show ?thesis by simp
qed

lemma trimLeftSpace_pad:
  "white_space pad \<Longrightarrow> trimLeftSpace (concat pad @ s) = trimLeftSpace s"
proof (induction pad)
  case Nil
  then show ?case by simp
next
  case (Cons w pad)
  then have w: "w \<in> set spaceRunes" and pad: "white_space pad"
    by (simp_all add: white_space_def)
  have "trimLeftSpace (w @ concat pad @ s) = trimLeftSpace (concat pad @ s)"
    by (subst trimLeftSpace.simps) (simp add: find_space_prefix [OF w])
  with Cons.IH [OF pad] show ?case by simp
qed

lemma trimRightSpace_pad:
  "white_space pad \<Longrightarrow> trimRightSpace (s @ concat pad) = trimRightSpace s"
proof (induction pad rule: rev_induct)
  case Nil
  then show ?case by simp
next
  case (snoc w pad)
  then have w: "w \<in> set spaceRunes" and pad: "white_space pad"
    by (simp_all add: white_space_def)
  have f: "find (\<lambda>v. suffix v ((s @ concat pad) @ w)) spaceRunes = Some w"
    by (rule find_space_suffix [OF w])
  have "trimRightSpace ((s @ concat pad) @ w) =
          trimRightSpace (take (length ((s @ concat pad) @ w) - length w) ((s @ concat pad) @ w))"
    by (subst trimRightSpace.simps) (simp only: f option.case)
  then have "trimRightSpace ((s @ concat pad) @ w) = trimRightSpace (s @ concat pad)"
    by simp
  with snoc.IH [OF pad] show ?case by simp
qed

lemma trimLeftSpace_stable:
  assumes "\<forall>w\<in>set spaceRunes. \<not> prefix w s"
  shows "trimLeftSpace s = s"
proof -
  from assms have "find (\<lambda>w. prefix w s) spaceRunes = None"
    by (simp add: find_None_iff)
  then show ?thesis by (subst trimLeftSpace.simps) simp
qed

lemma trimRightSpace_stable:
  assumes "\<forall>w\<in>set spaceRunes. \<not> suffix w s"
  shows "trimRightSpace s = s"
proof -
  from assms have "find (\<lambda>w. suffix w s) spaceRunes = None"
    by (simp add: find_None_iff)
  then show ?thesis by (subst trimRightSpace.simps) simp
qed

lemma no_space_prefix_pad:
  assumes e: "e \<noteq> []" "\<forall>w\<in>set spaceRunes. \<not> prefix w e" and pad: "white_space pad"
  shows "\<forall>w\<in>set spaceRunes. \<not> prefix w (e @ concat pad)"
proof (intro ballI notI)
  fix v
  assume v: "v \<in> set spaceRunes" and p: "prefix v (e @ concat pad)"
  from p have "prefix v e \<or> (\<exists>v'. v = e @ v' \<and> prefix v' (concat pad))"
    by (simp add: prefix_append)
  with e(2) v obtain v' where v': "v = e @ v'" "prefix v' (concat pad)" by blast
  from e(2) v v'(1) have "v' \<noteq> []" by auto
  from v'(2) obtain zs where zs: "concat pad = v' @ zs" by (auto simp: prefix_def)
  with \<open>v' \<noteq> []\<close> have ne: "concat pad \<noteq> []" and hd: "hd v' = hd (concat pad)"
    by (simp_all del: concat_eq_Nil_conv)
  from pad ne obtain w where w: "w \<in> set spaceRunes" "hd (concat pad) = hd w"
  proof (induction pad)
    case Nil
    then show ?case by simp
  next
    case (Cons a pad)
    from Cons.prems(2) have a: "a \<in> set spaceRunes" by (simp add: white_space_def)
    with spaceRunes_chars have "a \<noteq> []" by blast
    then have "hd (concat (a # pad)) = hd a" by simp
    with a Cons.prems(1) show ?case by blast
  qed
  from e(1) v'(1) \<open>v' \<noteq> []\<close> have "hd v' \<in> set (tl v)"
    by (cases e) auto
  with hd w(2) have "hd w \<in> set (tl v)" by simp
  with v w(1) spaceRunes_tail_start show False by blast
qed

lemma TrimSpace_pad:
  assumes "white_space before" "white_space after"
    "\<forall>w\<in>set spaceRunes. \<not> prefix w e \<and> \<not> suffix w e"
  shows "TrimSpace (concat before @ e @ concat after) = e"
proof (cases "e = []")
  case True
  with assms(1,2) have "trimLeftSpace (concat before @ e @ concat after) = trimLeftSpace []"
    using trimLeftSpace_pad [of after "[]"] by (simp add: trimLeftSpace_pad)
  moreover have "trimLeftSpace [] = []" "trimRightSpace [] = []"
    by (rule trimLeftSpace_stable, use spaceRunes_chars in auto)
       (rule trimRightSpace_stable, use spaceRunes_chars in auto)
  ultimately show ?thesis using True by (simp add: TrimSpace_def)
next
  case False
  from assms(3) have pre: "\<forall>w\<in>set spaceRunes. \<not> prefix w e"
    and suf: "\<forall>w\<in>set spaceRunes. \<not> suffix w e"
    by blast+
  have "trimLeftSpace (concat before @ e @ concat after) = trimLeftSpace (e @ concat after)"
    using assms(1) by (rule trimLeftSpace_pad)
  also have "\<dots> = e @ concat after"
    by (rule trimLeftSpace_stable) (rule no_space_prefix_pad [OF False pre assms(2)])
  finally have "TrimSpace (concat before @ e @ concat after) = trimRightSpace (e @ concat after)"
    by (simp add: TrimSpace_def)
  also have "\<dots> = trimRightSpace e"
    using assms(2) by (rule trimRightSpace_pad)
  also have "\<dots> = e"
    using suf by (rule trimRightSpace_stable)
  finally show ?thesis .
qed

section \<open>Facts about the endpoints of an entry\<close>

lemma Split_first: "Split s sep ! 0 = takeWhile (\<lambda>c. c \<noteq> sep) s"
proof (induction s)
  case Nil
  then show ?case by simp
next
  case (Cons c s)
  then show ?case by (cases "Split s sep") (auto simp: Split_not_Nil)
qed

lemma Split_low_text: "Split e CHR ''-'' ! 0 = low_text e"
  by (simp add: Split_first low_text_def)

lemma Split_high_text_None:
  "high_text e = None \<Longrightarrow> length (Split e CHR ''-'') = 1"
proof -
  assume "high_text e = None"
  then have "dropWhile (\<lambda>c. c \<noteq> CHR ''-'') e = []"
    by (simp add: high_text_def split: list.splits)
  then have "CHR ''-'' \<notin> set e" by auto
  then show ?thesis by (simp add: Split_no_sep)
qed

lemma Split_high_text_Some:
  assumes "high_text e = Some hi"
  shows "1 < length (Split e CHR ''-'') \<and> Split e CHR ''-'' ! 1 = hi"
proof -
  from assms obtain c rest where d: "dropWhile (\<lambda>c. c \<noteq> CHR ''-'') e = c # rest"
    and hi: "hi = takeWhile (\<lambda>c. c \<noteq> CHR ''-'') rest"
    by (auto simp: high_text_def split: list.splits)
  from d have "dropWhile (\<lambda>c. c \<noteq> CHR ''-'') e \<noteq> []" by simp
  from hd_dropWhile [OF this] d have c: "c = CHR ''-''" by simp
  have "e = takeWhile (\<lambda>c. c \<noteq> CHR ''-'') e @ dropWhile (\<lambda>c. c \<noteq> CHR ''-'') e" by simp
  with d c have e: "e = takeWhile (\<lambda>c. c \<noteq> CHR ''-'') e @ CHR ''-'' # rest" by simp
  have "CHR ''-'' \<notin> set (takeWhile (\<lambda>c. c \<noteq> CHR ''-'') e)"
    by (auto dest: set_takeWhileD)
  from Split_cut [OF this, of rest] e
  have "Split e CHR ''-'' = takeWhile (\<lambda>c. c \<noteq> CHR ''-'') e # Split rest CHR ''-''" by simp
  then show ?thesis
    using Split_not_Nil [of rest "CHR ''-''"] hi by (simp add: Split_first)
qed

lemma low_text_no_minus: "CHR ''-'' \<notin> set (low_text e)"
  by (auto simp: low_text_def dest: set_takeWhileD)

lemma high_text_no_minus: "high_text e = Some hi \<Longrightarrow> CHR ''-'' \<notin> set hi"
  by (auto simp: high_text_def split: list.splits dest: set_takeWhileD)

lemma decimal_text_chars:
  assumes "decimal_text s" "c \<in> set s"
  shows "isDigit c \<or> c = CHR ''+''"
proof (cases "s \<noteq> [] \<and> hd s = CHR ''+''")
  case True
  then obtain r where s: "s = CHR ''+'' # r" by (cases s) auto
  with assms show ?thesis
    by (auto simp: decimal_text_def strip_plus_def list_all_iff)
next
  case False
  with assms show ?thesis
    by (auto simp: decimal_text_def strip_plus_def list_all_iff)
qed

lemma decimal_text_no_special:
  assumes "decimal_text s"
  shows "CHR ''-'' \<notin> set s \<and> CHR '','' \<notin> set s \<and> CHR ''['' \<notin> set s \<and> CHR '']'' \<notin> set s"
proof -
  have "c \<noteq> CHR ''-'' \<and> c \<noteq> CHR '','' \<and> c \<noteq> CHR ''['' \<and> c \<noteq> CHR '']''" if "c \<in> set s" for c
    using decimal_text_chars [OF assms that] by (auto simp: isDigit_def)
  then show ?thesis by blast
qed

lemma decimal_text_ends:
  assumes "decimal_text s"
  shows "s \<noteq> [] \<and> (isDigit (hd s) \<or> hd s = CHR ''+'') \<and> isDigit (last s)"
proof -
  from assms have ne: "strip_plus s \<noteq> []" and dig: "list_all isDigit (strip_plus s)"
    by (simp_all add: decimal_text_def)
  from ne have s: "s \<noteq> []" by (auto simp: strip_plus_def)
  then have "hd s \<in> set s" by simp
  with assms have h: "isDigit (hd s) \<or> hd s = CHR ''+''" by (rule decimal_text_chars)
  from ne have "last (strip_plus s) \<in> set (strip_plus s)" by simp
  with dig have "isDigit (last (strip_plus s))" by (simp add: list_all_iff)
  moreover from ne have "last (strip_plus s) = last s"
    by (auto simp: strip_plus_def last_tl split: if_splits)
  ultimately show ?thesis using s h by simp
qed

section \<open>Facts about the range loop\<close>

lemma wrap64_id: "- (2 ^ 63) \<le> x \<Longrightarrow> x < 2 ^ 63 \<Longrightarrow> wrap64 x = x"
  by (simp add: wrap64_def)

lemma Ports_range_upto:
  assumes "- (2 ^ 63) \<le> t" "hi < 2 ^ 63 - 1"
  shows "Ports_range t hi yports = Some (yports @ map Itoa [t..hi])"
  using assms(1)
proof (induction "nat (hi + 1 - t)" arbitrary: t yports)
  case 0
  then have "\<not> t \<le> hi" by simp
  then show ?case by (subst Ports_range.simps) simp
next
  case (Suc k)
  then have le: "t \<le> hi" by simp
  with assms(2) Suc.prems have w: "wrap64 (t + 1) = t + 1"
    by (intro wrap64_id) simp_all
  from Suc.hyps(2) have k: "k = nat (hi + 1 - (t + 1))" by simp
  from Suc.prems have "- (2 ^ 63) \<le> t + 1" by simp
  from Suc.hyps(1) [OF k this]
  have "Ports_range (t + 1) hi (yports @ [Itoa t]) = Some ((yports @ [Itoa t]) @ map Itoa [t + 1..hi])" .
  moreover from le have "[t..hi] = t # [t + 1..hi]" by (simp add: upto_rec1)
  ultimately show ?case using le w by (subst Ports_range.simps) simp
qed

lemma Ports_range_diverges_aux:
  assumes "Ports_range t hi yports = Some r"
  shows "\<not> (hi = 2 ^ 63 - 1 \<and> - (2 ^ 63) \<le> t \<and> t \<le> hi)"
proof (rule Ports_range.raw_induct
    [where P = "\<lambda>t hi yports r. \<not> (hi = 2 ^ 63 - 1 \<and> - (2 ^ 63) \<le> t \<and> t \<le> hi)", OF _ assms])
  fix rec t hi yports r
  assume IH: "\<And>t hi yports r. rec t hi yports = Some r \<Longrightarrow>
      \<not> (hi = 2 ^ 63 - 1 \<and> - (2 ^ 63) \<le> t \<and> t \<le> hi)"
    and run: "(if t \<le> hi then rec (wrap64 (t + 1)) hi (yports @ [Itoa t]) else Some yports) = Some r"
  show "\<not> (hi = 2 ^ 63 - 1 \<and> - (2 ^ 63) \<le> t \<and> t \<le> hi)"
  proof
    assume a: "hi = 2 ^ 63 - 1 \<and> - (2 ^ 63) \<le> t \<and> t \<le> hi"
    with run have r: "rec (wrap64 (t + 1)) hi (yports @ [Itoa t]) = Some r" by simp
    have "- (2 ^ 63) \<le> wrap64 (t + 1) \<and> wrap64 (t + 1) \<le> 2 ^ 63 - 1"
      by (simp add: wrap64_def)
    with IH [OF r] a show False by simp
  qed
qed

lemma Ports_range_diverges:
  "- (2 ^ 63) \<le> t \<Longrightarrow> t \<le> 2 ^ 63 - 1 \<Longrightarrow> Ports_range t (2 ^ 63 - 1) yports = None"
  using Ports_range_diverges_aux [of t "2 ^ 63 - 1" yports]
  by (cases "Ports_range t (2 ^ 63 - 1) yports") auto

section \<open>Facts about the loop over the entries\<close>

lemma Ports_loop_skip_low:
  "isl (Atoi (Split (TrimSpace port) CHR ''-'' ! 0)) \<Longrightarrow>
   Ports_loop (port # mports) yports = Ports_loop mports yports"
  by (auto simp: Let_def isl_def)

lemma Ports_loop_skip_high:
  "Atoi (Split (TrimSpace port) CHR ''-'' ! 0) = Inr lo \<Longrightarrow>
   1 < length (Split (TrimSpace port) CHR ''-'') \<Longrightarrow>
   isl (Atoi (Split (TrimSpace port) CHR ''-'' ! 1)) \<Longrightarrow>
   Ports_loop (port # mports) yports = Ports_loop mports yports"
  by (auto simp: Let_def isl_def)

lemma Ports_loop_expand:
  "Atoi (Split (TrimSpace port) CHR ''-'' ! 0) = Inr lo \<Longrightarrow>
   1 < length (Split (TrimSpace port) CHR ''-'') \<Longrightarrow>
   Atoi (Split (TrimSpace port) CHR ''-'' ! 1) = Inr hi \<Longrightarrow>
   Ports_range lo hi yports = Some yports' \<Longrightarrow>
   Ports_loop (port # mports) yports = Ports_loop mports yports'"
  by (simp add: Let_def)

lemma prefix_hd: "prefix w s \<Longrightarrow> w \<noteq> [] \<Longrightarrow> hd w = hd s"
  by (auto simp: prefix_def)

lemma suffix_last: "suffix w s \<Longrightarrow> w \<noteq> [] \<Longrightarrow> last w = last s"
  by (auto simp: suffix_def)

lemma Ports_loop_sub_range:
  assumes "sub_range_ok r"
  shows "Ports_loop (sub_range_text r # mports) yports =
           Ports_loop mports (yports @ sub_range_ports r)"
proof -
  obtain before lo hi after where r: "r = SubRange before lo hi after" by (cases r)
  with assms have ws: "white_space before" "white_space after"
    and lo: "decimal_text lo" and hi: "decimal_text hi" and bound: "decimal_value hi < 2 ^ 63 - 1"
    by simp_all
  let ?e = "lo @ CHR ''-'' # hi"
  have ends: "\<forall>w\<in>set spaceRunes. \<not> prefix w ?e \<and> \<not> suffix w ?e"
  proof (intro ballI conjI notI)
    fix w
    assume w: "w \<in> set spaceRunes"
    then have c: "w \<noteq> []" "\<not> isDigit (hd w)" "\<not> isDigit (last w)" "hd w \<noteq> CHR ''+''"
      using spaceRunes_chars by blast+
    {
      assume "prefix w ?e"
      with c(1) have "hd w = hd ?e" by (intro prefix_hd)
      also have "\<dots> = hd lo" using decimal_text_ends [OF lo] by simp
      finally show False using decimal_text_ends [OF lo] c by auto
    }
    {
      assume "suffix w ?e"
      with c(1) have "last w = last ?e" by (intro suffix_last)
      also have "\<dots> = last hi" using decimal_text_ends [OF hi] by simp
      finally show False using decimal_text_ends [OF hi] c by auto
    }
  qed
  have trim: "TrimSpace (sub_range_text r) = ?e"
    using TrimSpace_pad [OF ws ends] by (simp add: r)
  have "CHR ''-'' \<notin> set lo" "CHR ''-'' \<notin> set hi"
    using decimal_text_no_special lo hi by blast+
  then have split: "Split ?e CHR ''-'' = [lo, hi]"
    by (simp add: Split_cut Split_no_sep)
  from bound have "decimal_value hi + 1 < 2 ^ 63" by simp
  then have "int (decimal_value hi + 1) < int (2 ^ 63)" by (simp only: of_nat_less_iff)
  then have ibound: "int (decimal_value hi) < 2 ^ 63 - 1" by simp
  from hi bound have fhi: "fits_int hi" by (simp add: fits_int_def)
  show ?thesis
  proof (cases "fits_int lo")
    case True
    have "- (2 ^ 63) \<le> int (decimal_value lo)" by (rule order_trans [of _ 0]) simp_all
    from this ibound have "Ports_range (int (decimal_value lo)) (int (decimal_value hi)) yports =
        Some (yports @ map Itoa [int (decimal_value lo)..int (decimal_value hi)])"
      by (rule Ports_range_upto)
    then have "Ports_loop (sub_range_text r # mports) yports =
        Ports_loop mports (yports @ map Itoa [int (decimal_value lo)..int (decimal_value hi)])"
      by (intro Ports_loop_expand [where lo = "int (decimal_value lo)" and hi = "int (decimal_value hi)"])
         (simp_all add: trim split Atoi_fits_int True fhi)
    then show ?thesis by (simp add: r)
  next
    case False
    with lo have "2 ^ 63 \<le> decimal_value lo" by (simp add: fits_int_def not_less)
    then have "int (2 ^ 63) \<le> int (decimal_value lo)" by (simp only: of_nat_le_iff)
    with ibound have "[int (decimal_value lo)..int (decimal_value hi)] = []" by simp
    moreover have "isl (Atoi lo)"
      using \<open>CHR ''-'' \<notin> set lo\<close> False by (rule Atoi_not_fits_int)
    then have "Ports_loop (sub_range_text r # mports) yports = Ports_loop mports yports"
      by (intro Ports_loop_skip_low) (simp add: trim split)
    ultimately show ?thesis by (simp add: r)
  qed
qed

lemma Ports_loop_malformed:
  assumes "entry_ok (Malformed before e after)"
  shows "Ports_loop (entry_text (Malformed before e after) # mports) yports =
           Ports_loop mports yports"
proof -
  from assms have ws: "white_space before" "white_space after"
    and ends: "\<forall>w\<in>set spaceRunes. \<not> prefix w e \<and> \<not> suffix w e"
    and bad: "non_integer_endpoint e"
    by (simp_all add: list_all_iff)
  have trim: "TrimSpace (concat before @ e @ concat after) = e"
    using ws ends by (rule TrimSpace_pad)
  show ?thesis
  proof (cases "fits_int (low_text e)")
    case False
    with low_text_no_minus have "isl (Atoi (low_text e))" by (rule Atoi_not_fits_int)
    then show ?thesis
      by (intro Ports_loop_skip_low) (simp add: trim Split_low_text)
  next
    case True
    with bad obtain hi where hi: "high_text e = Some hi" "\<not> fits_int hi"
      by (auto simp: non_integer_endpoint_def split: option.splits)
    from high_text_no_minus [OF hi(1)] hi(2) have "isl (Atoi hi)" by (rule Atoi_not_fits_int)
    with Split_high_text_Some [OF hi(1)] Atoi_fits_int [OF True] show ?thesis
      by (intro Ports_loop_skip_high [where lo = "int (decimal_value (low_text e))"])
         (simp_all add: trim Split_low_text)
  qed
qed

lemma Ports_loop_entries:
  "\<forall>e\<in>set es. entry_ok e \<Longrightarrow>
   Ports_loop (map entry_text es) yports = Some (Inr (yports @ concat (map entry_ports es)))"
proof (induction es arbitrary: yports)
  case Nil
  then show ?case by simp
next
  case (Cons e es)
  then have IH: "\<And>ys. Ports_loop (map entry_text es) ys = Some (Inr (ys @ concat (map entry_ports es)))"
    by simp
  show ?case
  proof (cases e)
    case (WellFormed r)
    with Cons.prems have "sub_range_ok r" by simp
    from Ports_loop_sub_range [OF this] WellFormed show ?thesis
      by (simp add: IH del: Ports_loop.simps)
  next
    case (Malformed before s after)
    with Cons.prems have "entry_ok (Malformed before s after)" by simp
    from Ports_loop_malformed [OF this] Malformed show ?thesis
      by (simp add: IH del: Ports_loop.simps)
  qed
qed

section \<open>Facts about Ports\<close>

lemma join_comma_set:
  "c \<in> set (join_comma es) \<Longrightarrow> c = CHR '','' \<or> (\<exists>e\<in>set es. c \<in> set e)"
  by (induction es rule: join_comma.induct) auto

lemma join_comma_Nil: "join_comma es = [] \<longleftrightarrow> es = [] \<or> es = [[]]"
  by (induction es rule: join_comma.induct) auto

lemma Split_join_comma:
  "es \<noteq> [] \<Longrightarrow> \<forall>e\<in>set es. CHR '','' \<notin> set e \<Longrightarrow> Split (join_comma es) CHR '','' = es"
  by (induction es rule: join_comma.induct) (simp_all add: Split_no_sep Split_cut)

lemma TrimSpace_Nil: "TrimSpace [] = []"
  using TrimSpace_pad [of "[]" "[]" "[]"] spaceRunes_chars
  by (auto simp: white_space_def)

lemma Ports_loop_empty_entry: "Ports_loop [[]] [] = Some (Inr [])"
  by (simp add: TrimSpace_Nil Atoi_def)

lemma Ports_descriptor:
  assumes "\<forall>e\<in>set es. CHR '','' \<notin> set e \<and> CHR ''['' \<notin> set e \<and> CHR '']'' \<notin> set e"
  shows "Ports (descriptor es) = Ports_loop es []"
proof (cases "join_comma es = []")
  case True
  then have "es = [] \<or> es = [[]]" by (simp add: join_comma_Nil)
  moreover from True have "Ports (descriptor es) = Some (Inr [])"
    by (simp add: Ports_def descriptor_def)
  ultimately show ?thesis using Ports_loop_empty_entry by auto
next
  case False
  then have ne: "es \<noteq> []" by auto
  let ?j = "join_comma es"
  have open_: "CHR ''['' \<notin> set (?j @ '']'')"
    using assms join_comma_set [of "CHR ''[''" es] by auto
  have close_: "CHR '']'' \<notin> set ?j"
    using assms join_comma_set [of "CHR '']''" es] by auto
  have 1: "Split (CHR ''['' # ?j @ '']'') CHR ''['' = [[], ?j @ '']'']"
    using Split_cut [of "CHR ''[''" "[]" "?j @ '']''"] Split_no_sep [OF open_] by simp
  have 2: "Split (?j @ '']'') CHR '']'' = [?j, []]"
    using Split_cut [OF close_, of "[]"] by simp
  have 3: "Split ?j CHR '','' = es"
    using ne assms by (simp add: Split_join_comma)
  from False have "CHR ''['' # ?j @ '']'' \<noteq> ''[]''" by simp
  then show ?thesis
    by (simp add: Ports_def descriptor_def Let_def 1 2 3 del: Split.simps)
qed

lemma white_space_chars:
  "white_space pad \<Longrightarrow> c \<in> set (concat pad) \<Longrightarrow>
     c \<noteq> CHR '','' \<and> c \<noteq> CHR ''['' \<and> c \<noteq> CHR '']''"
  using spaceRunes_chars by (auto simp: white_space_def list_all_iff)

lemma entry_text_chars:
  assumes "entry_ok e" "c \<in> set (entry_text e)"
  shows "c \<noteq> CHR '','' \<and> c \<noteq> CHR ''['' \<and> c \<noteq> CHR '']''"
proof (cases e)
  case (WellFormed r)
  obtain before lo hi after where r: "r = SubRange before lo hi after" by (cases r)
  with WellFormed assms(1) have ok: "white_space before" "white_space after"
    "decimal_text lo" "decimal_text hi"
    by simp_all
  from assms(2) WellFormed r
  have "c \<in> set (concat before) \<or> c \<in> set lo \<or> c = CHR ''-'' \<or> c \<in> set hi \<or> c \<in> set (concat after)"
    by auto
  then show ?thesis
    using white_space_chars [OF ok(1)] white_space_chars [OF ok(2)]
      decimal_text_no_special [OF ok(3)] decimal_text_no_special [OF ok(4)]
    by auto
next
  case (Malformed before s after)
  with assms(1) have ok: "white_space before" "white_space after"
    "CHR '','' \<notin> set s" "CHR ''['' \<notin> set s" "CHR '']'' \<notin> set s"
    by simp_all
  from assms(2) Malformed
  have "c \<in> set (concat before) \<or> c \<in> set s \<or> c \<in> set (concat after)"
    by auto
  then show ?thesis
    using white_space_chars [OF ok(1)] white_space_chars [OF ok(2)] ok(3-5)
    by auto
qed

lemma Ports_entries:
  assumes "\<forall>e\<in>set es. entry_ok e"
  shows "Ports (descriptor (map entry_text es)) = Some (Inr (concat (map entry_ports es)))"
proof -
  have "\<forall>t\<in>set (map entry_text es). CHR '','' \<notin> set t \<and> CHR ''['' \<notin> set t \<and> CHR '']'' \<notin> set t"
    using assms entry_text_chars by fastforce
  then have "Ports (descriptor (map entry_text es)) = Ports_loop (map entry_text es) []"
    by (rule Ports_descriptor)
  with Ports_loop_entries [OF assms, of "[]"] show ?thesis by simp
qed

section \<open>The port range expander on descriptors\<close>


lemma Ports_loop_diverge:
  "Atoi (Split (TrimSpace port) CHR ''-'' ! 0) = Inr lo \<Longrightarrow>
   1 < length (Split (TrimSpace port) CHR ''-'') \<Longrightarrow>
   Atoi (Split (TrimSpace port) CHR ''-'' ! 1) = Inr hi \<Longrightarrow>
   Ports_range lo hi yports = None \<Longrightarrow>
   Ports_loop (port # mports) yports = None"
  by (simp add: Let_def)

lemma TrimSpace_plain:
  "list_all (\<lambda>w. \<not> prefix w e \<and> \<not> suffix w e) spaceRunes \<Longrightarrow> TrimSpace e = e"
  using TrimSpace_pad [of "[]" "[]" e] by (simp add: white_space_def list_all_iff)

lemma Itoa_examples:
  "Itoa 0 = ''0''" "Itoa 1 = ''1''" "Itoa 2 = ''2''"
  "Itoa 31000 = ''31000''" "Itoa 31001 = ''31001''" "Itoa 32000 = ''32000''"
  "Itoa 8080 = ''8080''" "Itoa 8081 = ''8081''" "Itoa 8082 = ''8082''" "Itoa 9000 = ''9000''"
  by (simp_all add: Itoa_def digits.simps char_of_def bit_Suc_0_iff)

lemmas decimal_eval =
  sub_range_ok.simps entry_ok.simps white_space_def spaceRunes_def fits_int_def decimal_text_def
  decimal_value_def strip_plus_def isDigit_def non_integer_endpoint_def low_text_def
  high_text_def suffix_to_prefix

text \<open>
  C5 (as amended). Port range expansion. For a descriptor that is a bracketed,
  comma-separated list of sub-ranges \<open>lo-hi\<close>, the endpoints being natural numbers
  written in decimal (digits, after a \<open>+\<close> or not), every upper endpoint being below
  \<open>2^63 - 1\<close>, the largest \<open>int\<close>, and each sub-range standing between white space or
  none, Ports returns the numerals of the ports of every sub-range, the sub-ranges from
  left to right and each from \<open>lo\<close> up to \<open>hi\<close>, both included. In particular
  \<open>[0-0]\<close> yields \<open>0\<close>; \<open>[31000-31001,32000-32000]\<close> yields \<open>31000\<close>, \<open>31001\<close>,
  \<open>32000\<close>, and so does \<open>[31000-31001, 32000-32000]\<close>, with a blank after the comma;
  the empty descriptor and \<open>[]\<close> yield the empty sequence. In each case the call
  returns, without a panic.
\<close>

theorem Ports_expansion:
  "((\<forall>r\<in>set rs. sub_range_ok r) \<longrightarrow>
      Ports (descriptor (map sub_range_text rs)) = Some (Inr (concat (map sub_range_ports rs)))) \<and>
   Ports \<lparr>PortRanges = ''[0-0]''\<rparr> = Some (Inr [''0'']) \<and>
   Ports \<lparr>PortRanges = ''[31000-31001,32000-32000]''\<rparr> = Some (Inr [''31000'', ''31001'', ''32000'']) \<and>
   Ports \<lparr>PortRanges = ''[31000-31001, 32000-32000]''\<rparr> = Some (Inr [''31000'', ''31001'', ''32000'']) \<and>
   Ports \<lparr>PortRanges = ''''\<rparr> = Some (Inr []) \<and>
   Ports \<lparr>PortRanges = ''[]''\<rparr> = Some (Inr [])"
proof -
  have general: "Ports (descriptor (map sub_range_text rs)) =
        Some (Inr (concat (map sub_range_ports rs)))"
    if "\<forall>r\<in>set rs. sub_range_ok r" for rs
  proof -
    from that have "\<forall>e\<in>set (map WellFormed rs). entry_ok e" by simp
    from Ports_entries [OF this] show ?thesis by (simp add: comp_def)
  qed
  have a: "Ports \<lparr>PortRanges = ''[0-0]''\<rparr> = Some (Inr [''0''])"
    using general [of "[SubRange [] ''0'' ''0'' []]"]
    by (simp add: descriptor_def decimal_eval Itoa_examples)
  have b: "Ports \<lparr>PortRanges = ''[31000-31001,32000-32000]''\<rparr> =
             Some (Inr [''31000'', ''31001'', ''32000''])"
    using general [of "[SubRange [] ''31000'' ''31001'' [], SubRange [] ''32000'' ''32000'' []]"]
    by (simp add: descriptor_def decimal_eval Itoa_examples upto_rec1)
  have b': "Ports \<lparr>PortRanges = ''[31000-31001, 32000-32000]''\<rparr> =
             Some (Inr [''31000'', ''31001'', ''32000''])"
    using general [of "[SubRange [] ''31000'' ''31001'' [], SubRange ['' ''] ''32000'' ''32000'' []]"]
    by (simp add: descriptor_def decimal_eval Itoa_examples upto_rec1)
  have c: "Ports \<lparr>PortRanges = ''''\<rparr> = Some (Inr [])" "Ports \<lparr>PortRanges = ''[]''\<rparr> = Some (Inr [])"
    by (simp_all add: Ports_def)
  from general a b b' c show ?thesis by blast
qed

theorem Ports_expansion_witness:
  "Ports \<lparr>PortRanges = ''[ 8080-8082 ,+9000-09000]''\<rparr> =
     Some (Inr [''8080'', ''8081'', ''8082'', ''9000''])"
proof -
  let ?rs = "[SubRange ['' ''] ''8080'' ''8082'' ['' ''], SubRange [] ''+9000'' ''09000'' []]"
  have h: "\<forall>r\<in>set ?rs. sub_range_ok r"
    by (simp add: decimal_eval)
  have "Ports (descriptor (map sub_range_text ?rs)) = Some (Inr (concat (map sub_range_ports ?rs)))"
    using Ports_expansion [of ?rs] h by blast
  then show ?thesis
    by (simp add: descriptor_def decimal_eval Itoa_examples upto_rec1)
qed

text \<open>
  The claim as first stated spoke of every list of integer sub-ranges. With the largest
  \<open>int\<close> as upper endpoint the counter of the loop wraps around and the call never
  returns, where the claim promises the one port; and a \<open>-\<close> before an endpoint is taken
  for the separator, so that the sub-range from -2 to -1 yields no port.
\<close>

theorem Ports_expansion_counterexample:
  "Ports \<lparr>PortRanges = ''[9223372036854775807-9223372036854775807]''\<rparr> = None \<and>
   Ports \<lparr>PortRanges = ''[-2--1]''\<rparr> = Some (Inr [])"
proof
  let ?m = "''9223372036854775807''"
  let ?e = "''9223372036854775807-9223372036854775807''"
  have trim: "TrimSpace ?e = ?e"
    by (rule TrimSpace_plain) (simp add: spaceRunes_def suffix_to_prefix)
  have split: "Split ?e CHR ''-'' = [?m, ?m]" by simp
  have "fits_int ?m" by (simp add: decimal_eval)
  then have atoi: "Atoi ?m = Inr (2 ^ 63 - 1)"
    by (simp add: Atoi_fits_int) (simp add: decimal_eval)
  have "Ports_range (2 ^ 63 - 1) (2 ^ 63 - 1) [] = None"
    by (rule Ports_range_diverges) simp_all
  then have "Ports_loop [?e] [] = None"
    by (intro Ports_loop_diverge [where lo = "2 ^ 63 - 1" and hi = "2 ^ 63 - 1"])
       (simp_all add: trim split atoi del: Split.simps)
  moreover have "Ports (descriptor [?e]) = Ports_loop [?e] []"
    by (rule Ports_descriptor) simp
  ultimately show "Ports \<lparr>PortRanges = ''[9223372036854775807-9223372036854775807]''\<rparr> = None"
    by (simp add: descriptor_def)
next
  have "\<forall>e\<in>set [Malformed [] ''-2--1'' []]. entry_ok e"
    by (simp add: decimal_eval)
  from Ports_entries [OF this] show "Ports \<lparr>PortRanges = ''[-2--1]''\<rparr> = Some (Inr [])"
    by (simp add: descriptor_def)
qed




end
